theory Spec2Isabelle
  imports Complex_Main "HOL-Library.Multiset"
begin

section \<open>Discussion fetcher (hylable\_processing.py)\<close>

text \<open>
  The script talks to two things outside itself: the transcription service, through
  \<^verbatim>\<open>hy_client.get_discussions(course_id)\<close>, and the wall clock, through
  \<^verbatim>\<open>time.time()\<close>. Both are oracles of the model: the answer to the n-th listing
  call and the value of the n-th clock reading. The world counts the calls made so far, so
  that every function takes a world and returns the world it leaves behind.
  A listing call may raise inside the client library; the polling functions have no
  handler, so the exception leaves them (\<open>Inl\<close>). Console output (\<^verbatim>\<open>print\<close>) is not
  modelled.
\<close>

datatype py_exception =
  IndexError | KeyError | ValueError | OSError | UnicodeEncodeError | RequestException
  | OtherException

record discussion =
  d_id :: string
  d_status :: string
  d_topic :: "string option"
  d_comment :: "string option"
  d_recordedAt :: int
  d_duration_sec :: int
  d_group_name :: "string option"

record hy_world =
  list_calls :: nat
  clock_reads :: nat
  sleeps :: nat

type_synonym listing_oracle = "string \<Rightarrow> nat \<Rightarrow> py_exception + discussion list"
type_synonym clock_oracle = "nat \<Rightarrow> real"

definition hy_start :: hy_world where
  "hy_start = \<lparr>list_calls = 0, clock_reads = 0, sleeps = 0\<rparr>"

text \<open>
  The body of a \<^verbatim>\<open>for\<close> loop either runs to the end of the listing or leaves the
  function through \<^verbatim>\<open>return\<close>.
\<close>

datatype 'a pass_result = Returned 'a | Fallthrough 'a

subsection \<open>get\_recording\_discussion\_ids\<close>

text \<open>
  Lines 49-57: only discussions whose status is \<^verbatim>\<open>"recording"\<close> are looked at; the
  length test sits under the status test and beside the membership test.
\<close>

fun grdi_scan :: "int \<Rightarrow> discussion list \<Rightarrow> string list \<Rightarrow> string list pass_result" where
  "grdi_scan maxd [] ids = Fallthrough ids"
| "grdi_scan maxd (d # ds) ids =
     (if d_status d = ''recording'' then
        (if int (length (if d_id d \<notin> set ids then ids @ [d_id d] else ids)) \<ge> maxd
         then Returned (if d_id d \<notin> set ids then ids @ [d_id d] else ids)
         else grdi_scan maxd ds (if d_id d \<notin> set ids then ids @ [d_id d] else ids))
      else grdi_scan maxd ds ids)"

text \<open>Lines 48-62: the while loop; no sleep between passes.\<close>

partial_function (option) grdi_loop ::
  "listing_oracle \<Rightarrow> clock_oracle \<Rightarrow> string \<Rightarrow> int \<Rightarrow> int \<Rightarrow> real \<Rightarrow> string list \<Rightarrow> hy_world
     \<Rightarrow> ((py_exception + string list) \<times> hy_world) option" where
  "grdi_loop listing clock course maxd timeout start ids w =
     (if int (length ids) < maxd then
        (case listing course (list_calls w) of
           Inl e \<Rightarrow> Some (Inl e, w\<lparr>list_calls := Suc (list_calls w)\<rparr>)
         | Inr ds \<Rightarrow>
             (case grdi_scan maxd ds ids of
                Returned ids' \<Rightarrow> Some (Inr ids', w\<lparr>list_calls := Suc (list_calls w)\<rparr>)
              | Fallthrough ids' \<Rightarrow>
                  (if clock (clock_reads w) - start > real_of_int timeout
                   then Some (Inr ids', w\<lparr>list_calls := Suc (list_calls w),
                                           clock_reads := Suc (clock_reads w)\<rparr>)
                   else grdi_loop listing clock course maxd timeout start ids'
                          (w\<lparr>list_calls := Suc (list_calls w),
                             clock_reads := Suc (clock_reads w)\<rparr>))))
      else Some (Inr ids, w))"

definition get_recording_discussion_ids ::
  "listing_oracle \<Rightarrow> clock_oracle \<Rightarrow> string \<Rightarrow> int \<Rightarrow> int \<Rightarrow> hy_world
     \<Rightarrow> ((py_exception + string list) \<times> hy_world) option" where
  "get_recording_discussion_ids listing clock course maxd timeout w =
     grdi_loop listing clock course maxd timeout (clock (clock_reads w)) []
       (w\<lparr>clock_reads := Suc (clock_reads w)\<rparr>)"

subsection \<open>get\_discussion\_ids\<close>

text \<open>Lines 91-98: every status counts; the length test sits under the membership test.\<close>

fun gdi_scan :: "int \<Rightarrow> discussion list \<Rightarrow> string list \<Rightarrow> string list pass_result" where
  "gdi_scan maxd [] ids = Fallthrough ids"
| "gdi_scan maxd (d # ds) ids =
     (if d_id d \<notin> set ids then
        (if int (length (ids @ [d_id d])) \<ge> maxd
         then Returned (ids @ [d_id d])
         else gdi_scan maxd ds (ids @ [d_id d]))
      else gdi_scan maxd ds ids)"

text \<open>Lines 90-106: the while loop, with \<^verbatim>\<open>time.sleep(3)\<close> at the end of each round.\<close>

partial_function (option) gdi_loop ::
  "listing_oracle \<Rightarrow> clock_oracle \<Rightarrow> string \<Rightarrow> int \<Rightarrow> int \<Rightarrow> real \<Rightarrow> string list \<Rightarrow> hy_world
     \<Rightarrow> ((py_exception + string list) \<times> hy_world) option" where
  "gdi_loop listing clock course maxd timeout start ids w =
     (if int (length ids) < maxd then
        (case listing course (list_calls w) of
           Inl e \<Rightarrow> Some (Inl e, w\<lparr>list_calls := Suc (list_calls w)\<rparr>)
         | Inr ds \<Rightarrow>
             (case gdi_scan maxd ds ids of
                Returned ids' \<Rightarrow> Some (Inr ids', w\<lparr>list_calls := Suc (list_calls w)\<rparr>)
              | Fallthrough ids' \<Rightarrow>
                  (if clock (clock_reads w) - start > real_of_int timeout
                   then Some (Inr ids', w\<lparr>list_calls := Suc (list_calls w),
                                           clock_reads := Suc (clock_reads w)\<rparr>)
                   else gdi_loop listing clock course maxd timeout start ids'
                          (w\<lparr>list_calls := Suc (list_calls w),
                             clock_reads := Suc (clock_reads w),
                             sleeps := Suc (sleeps w)\<rparr>))))
      else Some (Inr ids, w))"

definition get_discussion_ids ::
  "listing_oracle \<Rightarrow> clock_oracle \<Rightarrow> string \<Rightarrow> int \<Rightarrow> int \<Rightarrow> hy_world
     \<Rightarrow> ((py_exception + string list) \<times> hy_world) option" where
  "get_discussion_ids listing clock course maxd timeout w =
     gdi_loop listing clock course maxd timeout (clock (clock_reads w)) []
       (w\<lparr>clock_reads := Suc (clock_reads w)\<rparr>)"

subsection \<open>get\_all\_discussion\_ids\<close>

text \<open>
  \<^verbatim>\<open>recordedAt\<close> of a listed discussion is modelled as the instant it denotes, in
  microseconds since the epoch: lines 148-153 bring the three forms the client may hand
  over (an ISO string, a naive datetime read as UTC, an aware datetime) to one aware
  datetime. Line 161 prints it in the zone Asia/Tokyo with the format
  \<^verbatim>\<open>%Y-%m-%d %H:%M:%S %Z\<close>, which has no field below the second. The printed text is
  modelled by what it spells: the wall-clock second in that zone (nine hours ahead of UTC)
  and the zone name, \<^verbatim>\<open>JST\<close> (the summer time of 1948 to 1951 is outside the model).
\<close>

type_synonym printed_time = "int \<times> string"

record discussion_info =
  i_id :: string
  i_status :: string
  i_topic :: "string option"
  i_comment :: "string option"
  i_recordedAt :: printed_time
  i_duration_sec :: int
  i_group_name :: "string option"

definition jst_strftime :: "int \<Rightarrow> printed_time" where
  "jst_strftime utc_micros = (utc_micros div 1000000 + 9 * 3600, ''JST'')"

text \<open>
  Line 176 reads the text back with \<^verbatim>\<open>datetime.strptime\<close> and the same format. Its
  \<^verbatim>\<open>%Z\<close> accepts, without regard to case, the names \<^verbatim>\<open>UTC\<close> and \<^verbatim>\<open>GMT\<close>, the
  standard zone name of the host (\<^verbatim>\<open>time.tzname[0]\<close>) and, when the host's zone has a
  summer time (\<^verbatim>\<open>time.daylight\<close>), that name too; any other name makes it raise
  \<^verbatim>\<open>ValueError\<close>. The datetime it gives is naive: the wall-clock second, the zone
  name dropped.
\<close>

record host =
  tz_standard :: string
  tz_daylight :: "string option"

definition ascii_lower :: "char \<Rightarrow> char" where
  "ascii_lower c =
     (case map_of (zip ''ABCDEFGHIJKLMNOPQRSTUVWXYZ'' ''abcdefghijklmnopqrstuvwxyz'') c of
        None \<Rightarrow> c
      | Some l \<Rightarrow> l)"

definition zone_names :: "host \<Rightarrow> string list" where
  "zone_names h =
     [''utc'', ''gmt'', map ascii_lower (tz_standard h)] @
     (case tz_daylight h of None \<Rightarrow> [] | Some d \<Rightarrow> [map ascii_lower d])"

definition strptime :: "host \<Rightarrow> printed_time \<Rightarrow> py_exception + int" where
  "strptime h text =
     (if map ascii_lower (snd text) \<in> set (zone_names h) then Inr (fst text)
      else Inl ValueError)"

definition discussion_info_of :: "discussion \<Rightarrow> discussion_info" where
  "discussion_info_of d =
     \<lparr>i_id = d_id d, i_status = d_status d, i_topic = d_topic d, i_comment = d_comment d,
      i_recordedAt = jst_strftime (d_recordedAt d), i_duration_sec = d_duration_sec d,
      i_group_name = d_group_name d\<rparr>"

text \<open>Lines 143-166: one pass over a listing; the list and the set grow together.\<close>

fun gadi_scan ::
  "discussion list \<Rightarrow> discussion_info list \<Rightarrow> string set \<Rightarrow> discussion_info list \<times> string set" where
  "gadi_scan [] discussions found_ids = (discussions, found_ids)"
| "gadi_scan (d # ds) discussions found_ids =
     (if d_id d \<notin> found_ids
      then gadi_scan ds (discussions @ [discussion_info_of d]) (insert (d_id d) found_ids)
      else gadi_scan ds discussions found_ids)"

text \<open>Lines 142-174: \<^verbatim>\<open>while True\<close> with its two exits.\<close>

partial_function (option) gadi_loop ::
  "listing_oracle \<Rightarrow> clock_oracle \<Rightarrow> string \<Rightarrow> int \<Rightarrow> real \<Rightarrow> discussion_info list \<Rightarrow> string set
     \<Rightarrow> hy_world \<Rightarrow> ((py_exception + discussion_info list) \<times> hy_world) option" where
  "gadi_loop listing clock course timeout start discussions found_ids w =
     (case listing course (list_calls w) of
        Inl e \<Rightarrow> Some (Inl e, w\<lparr>list_calls := Suc (list_calls w)\<rparr>)
      | Inr ds \<Rightarrow>
          (case gadi_scan ds discussions found_ids of
             (discussions', found_ids') \<Rightarrow>
               (if clock (clock_reads w) - start > real_of_int timeout
                then Some (Inr discussions', w\<lparr>list_calls := Suc (list_calls w),
                                                clock_reads := Suc (clock_reads w)\<rparr>)
                else if card found_ids' = length discussions'
                then Some (Inr discussions', w\<lparr>list_calls := Suc (list_calls w),
                                                clock_reads := Suc (clock_reads w)\<rparr>)
                else gadi_loop listing clock course timeout start discussions' found_ids'
                       (w\<lparr>list_calls := Suc (list_calls w),
                          clock_reads := Suc (clock_reads w)\<rparr>))))"

text \<open>
  Line 176: \<^verbatim>\<open>list.sort(key=..., reverse=True)\<close> first computes the key of every
  element, in order, so the first key that raises ends the sort; then it sorts stably
  under the reversed comparison, which for integer keys is a stable ascending sort on the
  negated key.
\<close>

fun recordedAt_keys :: "host \<Rightarrow> discussion_info list \<Rightarrow> py_exception + int list" where
  "recordedAt_keys h [] = Inr []"
| "recordedAt_keys h (x # xs) =
     (case strptime h (i_recordedAt x) of
        Inl e \<Rightarrow> Inl e
      | Inr k \<Rightarrow> (case recordedAt_keys h xs of Inl e \<Rightarrow> Inl e | Inr ks \<Rightarrow> Inr (k # ks)))"

definition sort_reverse :: "int list \<Rightarrow> 'a list \<Rightarrow> 'a list" where
  "sort_reverse keys xs = map snd (sort_key (\<lambda>p. - fst p) (zip keys xs))"

definition sort_by_recordedAt ::
  "host \<Rightarrow> discussion_info list \<Rightarrow> py_exception + discussion_info list" where
  "sort_by_recordedAt h discussions =
     (case recordedAt_keys h discussions of
        Inl e \<Rightarrow> Inl e
      | Inr keys \<Rightarrow> Inr (sort_reverse keys discussions))"

definition get_all_discussion_ids ::
  "host \<Rightarrow> listing_oracle \<Rightarrow> clock_oracle \<Rightarrow> string \<Rightarrow> int \<Rightarrow> hy_world
     \<Rightarrow> ((py_exception + discussion_info list) \<times> hy_world) option" where
  "get_all_discussion_ids h listing clock course timeout w =
     (case gadi_loop listing clock course timeout (clock (clock_reads w)) [] {}
             (w\<lparr>clock_reads := Suc (clock_reads w)\<rparr>) of
        None \<Rightarrow> None
      | Some (Inl e, w') \<Rightarrow> Some (Inl e, w')
      | Some (Inr discussions, w') \<Rightarrow>
          (case sort_by_recordedAt h discussions of
             Inl e \<Rightarrow> Some (Inl e, w')
           | Inr sorted_discussions \<Rightarrow> Some (Inr sorted_discussions, w')))"

subsection \<open>get\_single\_discussion\_text\<close>

text \<open>
  The client's two lookups either give a value or raise. A speech-recognition segment is
  a dictionary; \<^verbatim>\<open>item['text']\<close> raises KeyError when the key is absent. Every
  exception of the model derives from \<^verbatim>\<open>Exception\<close>, the class the second handler
  names.
\<close>

type_synonym asr_item = "(string \<times> string) list"

record hy_client =
  get_discussion :: "string \<Rightarrow> py_exception + discussion"
  get_asr :: "discussion \<Rightarrow> py_exception + asr_item list"

fun item_texts :: "asr_item list \<Rightarrow> py_exception + string list" where
  "item_texts [] = Inr []"
| "item_texts (item # metadatas) =
     (case map_of item ''text'' of
        None \<Rightarrow> Inl KeyError
      | Some t \<Rightarrow> (case item_texts metadatas of Inl e \<Rightarrow> Inl e | Inr ts \<Rightarrow> Inr (t # ts)))"

text \<open>Lines 217-220, the body of the \<^verbatim>\<open>try\<close>.\<close>

definition discussion_text_body ::
  "hy_client \<Rightarrow> string \<Rightarrow> py_exception + string \<times> string list" where
  "discussion_text_body client discussion_id =
     (case get_discussion client discussion_id of
        Inl e \<Rightarrow> Inl e
      | Inr discussion \<Rightarrow>
          (case get_asr client discussion of
             Inl e \<Rightarrow> Inl e
           | Inr metadatas \<Rightarrow>
               (case item_texts metadatas of
                  Inl e \<Rightarrow> Inl e
                | Inr texts \<Rightarrow> Inr (discussion_id, texts))))"

text \<open>Lines 216-226: the two handlers, in the order of the source.\<close>

definition get_single_discussion_text ::
  "hy_client \<Rightarrow> string \<Rightarrow> py_exception + (string \<times> string list) option" where
  "get_single_discussion_text client discussion_id =
     (case discussion_text_body client discussion_id of
        Inr result \<Rightarrow> Inr (Some result)
      | Inl e \<Rightarrow> (if e = IndexError then Inr None else Inr None))"

section \<open>Board backup (miro-backup-python.py)\<close>

text \<open>
  A JSON document, as \<^verbatim>\<open>response.json()\<close> gives it and \<^verbatim>\<open>json.dump\<close> takes it; an
  object keeps its keys in order. A finite float is the real number it stands for; the
  three floats that are not finite have a constructor of their own. A string is the list
  of the bytes of its UTF-8 encoding, so that it is written to a file opened with
  \<^verbatim>\<open>encoding='utf-8'\<close> as it stands (a string with a lone surrogate, which has no such
  encoding, is outside the model). The body of a board response is an object; the body of
  an items response is read through \<^verbatim>\<open>data.get("data", [])\<close> and
  \<^verbatim>\<open>data.get("cursor")\<close> only, so it is a record of those two optional fields.
\<close>

datatype nonfinite = NaN | Infinity | NegInfinity

datatype json =
  JNull | JBool bool | JInt int | JFloat real | JNonFinite nonfinite | JStr string
  | JArr "json list" | JObj "(string \<times> json) list"

type_synonym json_dict = "(string \<times> json) list"

record page =
  p_data :: "json list option"
  p_cursor :: "string option"

record request =
  rq_url :: string
  rq_authorization :: string
  rq_cursor :: "string option"

datatype 'a http_result = HttpError | HttpOk 'a

text \<open>
  The network is an oracle: the answer to the n-th request of the run, where
  \<^verbatim>\<open>requests.get\<close> raising or \<^verbatim>\<open>raise_for_status\<close> raising is \<open>HttpError\<close>. The
  world keeps the requests sent, oldest first, and the files on disk.
\<close>

record 'f miro_world =
  requests_sent :: "request list"
  files :: "string \<rightharpoonup> 'f"

type_synonym board_oracle = "nat \<Rightarrow> json_dict http_result"
type_synonym items_oracle = "nat \<Rightarrow> page http_result"

definition base_url :: string where
  "base_url = ''https://api.miro.com/v2''"

definition bearer :: "string \<Rightarrow> string" where
  "bearer access_token = ''Bearer '' @ access_token"

text \<open>Python's truth value of an optional string: \<^verbatim>\<open>None\<close> and \<^verbatim>\<open>""\<close> are false.\<close>

fun truthy :: "string option \<Rightarrow> bool" where
  "truthy None = False"
| "truthy (Some s) = (s \<noteq> [])"

definition dict_get :: "json_dict \<Rightarrow> string \<Rightarrow> json \<Rightarrow> json" where
  "dict_get d k dflt = (case map_of d k of None \<Rightarrow> dflt | Some v \<Rightarrow> v)"

text \<open>Subscripting a parsed document, \<^verbatim>\<open>doc[key]\<close>; only an object has keys.\<close>

fun json_get :: "json \<Rightarrow> string \<Rightarrow> json option" where
  "json_get (JObj kvs) k = map_of kvs k"
| "json_get _ k = None"

text \<open>
  \<^verbatim>\<open>requests.get(url, headers=..., params=...)\<close>: the request as it leaves, and its
  place in the world's record.
\<close>

definition board_request :: "string \<Rightarrow> string \<Rightarrow> request" where
  "board_request access_token board_id =
     \<lparr>rq_url = base_url @ ''/boards/'' @ board_id,
      rq_authorization = bearer access_token, rq_cursor = None\<rparr>"

definition items_request :: "string \<Rightarrow> string \<Rightarrow> string option \<Rightarrow> request" where
  "items_request access_token board_id cursor =
     \<lparr>rq_url = base_url @ ''/boards/'' @ board_id @ ''/items'',
      rq_authorization = bearer access_token,
      rq_cursor = (if truthy cursor then cursor else None)\<rparr>"

definition send :: "request \<Rightarrow> 'f miro_world \<Rightarrow> 'f miro_world" where
  "send rq w = w\<lparr>requests_sent := requests_sent w @ [rq]\<rparr>"

subsection \<open>get\_board\<close>

definition get_board ::
  "board_oracle \<Rightarrow> string \<Rightarrow> string \<Rightarrow> 'f miro_world \<Rightarrow> (py_exception + json_dict) \<times> 'f miro_world" where
  "get_board net access_token board_id w =
     (case net (length (requests_sent w)) of
        HttpError \<Rightarrow> (Inl RequestException, send (board_request access_token board_id) w)
      | HttpOk body \<Rightarrow> (Inr body, send (board_request access_token board_id) w))"

subsection \<open>get\_all\_items\<close>

definition page_items :: "page \<Rightarrow> json list" where
  "page_items data = (case p_data data of None \<Rightarrow> [] | Some xs \<Rightarrow> xs)"

text \<open>Lines 77-93: one round per request; the handler of line 96 raises again.\<close>

partial_function (option) items_loop ::
  "items_oracle \<Rightarrow> string \<Rightarrow> string \<Rightarrow> json list \<Rightarrow> string option \<Rightarrow> 'f miro_world
     \<Rightarrow> ((py_exception + json list) \<times> 'f miro_world) option" where
  "items_loop net access_token board_id items cursor w =
     (case net (length (requests_sent w)) of
        HttpError \<Rightarrow>
          Some (Inl RequestException, send (items_request access_token board_id cursor) w)
      | HttpOk data \<Rightarrow>
          (if \<not> truthy (p_cursor data)
           then Some (Inr (items @ page_items data),
                      send (items_request access_token board_id cursor) w)
           else items_loop net access_token board_id (items @ page_items data) (p_cursor data)
                  (send (items_request access_token board_id cursor) w)))"

definition get_all_items ::
  "items_oracle \<Rightarrow> string \<Rightarrow> string \<Rightarrow> 'f miro_world
     \<Rightarrow> ((py_exception + json list) \<times> 'f miro_world) option" where
  "get_all_items net access_token board_id w = items_loop net access_token board_id [] None w"

subsection \<open>backup\_board\<close>

text \<open>
  \<^verbatim>\<open>json.dump\<close> belongs to the standard library: it is the parameter \<open>dumps\<close>. It
  writes the document piece by piece into the file that \<^verbatim>\<open>open(output_path, 'w')\<close> has
  just emptied, and it may raise on the way (a string that cannot be encoded, a full
  disk): \<open>dumps\<close> gives either the whole text, or the exception together with what had
  been written when it was raised, which is then what the file holds. \<open>now\<close> is the text of
  \<^verbatim>\<open>datetime.now().isoformat()\<close>, and \<open>can_open\<close> says whether the \<^verbatim>\<open>open\<close>
  succeeds. The handler of line 142 raises again, so an exception of either fetch leaves
  the function before line 134 is reached.
\<close>

definition backup_data_of :: "json_dict \<Rightarrow> json list \<Rightarrow> string \<Rightarrow> json" where
  "backup_data_of board_info items now =
     JObj [(''board'', JObj board_info),
           (''items'', JArr items),
           (''metadata'',
              JObj [(''backup_date'', JStr now),
                    (''item_count'', JInt (int (length items))),
                    (''board_name'', dict_get board_info ''name'' (JStr ''Unknown Board''))])]"

definition backup_board ::
  "board_oracle \<Rightarrow> items_oracle \<Rightarrow> (json \<Rightarrow> (py_exception \<times> 'f) + 'f) \<Rightarrow> string \<Rightarrow> (string \<Rightarrow> bool)
     \<Rightarrow> string \<Rightarrow> string \<Rightarrow> string \<Rightarrow> 'f miro_world
     \<Rightarrow> ((py_exception + json) \<times> 'f miro_world) option" where
  "backup_board bnet inet dumps now can_open access_token board_id output_path w =
     (case get_board bnet access_token board_id w of
        (Inl e, w1) \<Rightarrow> Some (Inl e, w1)
      | (Inr board_info, w1) \<Rightarrow>
          (case get_all_items inet access_token board_id w1 of
             None \<Rightarrow> None
           | Some (Inl e, w2) \<Rightarrow> Some (Inl e, w2)
           | Some (Inr items, w2) \<Rightarrow>
               (if can_open output_path
                then (case dumps (backup_data_of board_info items now) of
                        Inl (e, written) \<Rightarrow>
                          Some (Inl e, w2\<lparr>files := (files w2)(output_path \<mapsto> written)\<rparr>)
                      | Inr written \<Rightarrow>
                          Some (Inr (backup_data_of board_info items now),
                                w2\<lparr>files := (files w2)(output_path \<mapsto> written)\<rparr>))
                else Some (Inl OSError, w2))))"

subsection \<open>load\_environment and main\<close>

text \<open>
  The environment is the mapping \<^verbatim>\<open>os.getenv\<close> reads once \<^verbatim>\<open>load_dotenv\<close> has run.
\<close>

definition load_environment ::
  "(string \<rightharpoonup> string) \<Rightarrow> py_exception + string \<times> string \<times> string" where
  "load_environment env =
     (case env ''MIRO_ACCESS_TOKEN'' of
        None \<Rightarrow> Inl ValueError
      | Some access_token \<Rightarrow>
          (if access_token = [] then Inl ValueError
           else (case env ''MIRO_BOARD_ID'' of
                   None \<Rightarrow> Inl ValueError
                 | Some board_id \<Rightarrow>
                     (if board_id = [] then Inl ValueError
                      else Inr (access_token, board_id,
                                (case env ''OUTPUT_PATH'' of
                                   None \<Rightarrow> ''miro_board_backup.json''
                                 | Some output_path \<Rightarrow> output_path))))))"

text \<open>Lines 183-194: both handlers log and return, so main hands back only the world.\<close>

definition main ::
  "(string \<rightharpoonup> string) \<Rightarrow> board_oracle \<Rightarrow> items_oracle \<Rightarrow> (json \<Rightarrow> (py_exception \<times> 'f) + 'f)
     \<Rightarrow> string \<Rightarrow> (string \<Rightarrow> bool) \<Rightarrow> 'f miro_world \<Rightarrow> 'f miro_world option" where
  "main env bnet inet dumps now can_open w =
     (case load_environment env of
        Inl e \<Rightarrow> Some w
      | Inr (access_token, board_id, output_path) \<Rightarrow>
          (case backup_board bnet inet dumps now can_open access_token board_id output_path w of
             None \<Rightarrow> None
           | Some (r, w') \<Rightarrow> Some w'))"

section \<open>Sample inputs\<close>

text \<open>Concrete services and clocks on which the theorems below are exercised.\<close>

definition sample_discussion :: "string \<Rightarrow> string \<Rightarrow> int \<Rightarrow> discussion" where
  "sample_discussion i st t =
     \<lparr>d_id = i, d_status = st, d_topic = None, d_comment = None, d_recordedAt = t,
      d_duration_sec = 60, d_group_name = None\<rparr>"

definition empty_listing :: listing_oracle where
  "empty_listing course n = Inr []"

definition growing_listing :: listing_oracle where
  "growing_listing course n =
     (if n = 0 then Inr [sample_discussion ''d1'' ''recording'' 0]
      else Inr [sample_discussion ''d1'' ''recording'' 0,
                sample_discussion ''d2'' ''recording'' 5000000])"

definition ticking_clock :: "real \<Rightarrow> clock_oracle" where
  "ticking_clock step n = real n * step"

definition japan_host :: host where
  "japan_host = \<lparr>tz_standard = ''JST'', tz_daylight = None\<rparr>"

definition utc_host :: host where
  "utc_host = \<lparr>tz_standard = ''UTC'', tz_daylight = None\<rparr>"

definition new_york_host :: host where
  "new_york_host = \<lparr>tz_standard = ''EST'', tz_daylight = Some ''EDT''\<rparr>"

definition tied_listing :: listing_oracle where
  "tied_listing course n =
     Inr [sample_discussion ''a'' ''finished'' 1000000,
          sample_discussion ''b'' ''finished'' 1000000]"

definition subsecond_listing :: listing_oracle where
  "subsecond_listing course n =
     Inr [sample_discussion ''c'' ''finished'' 200000,
          sample_discussion ''d'' ''finished'' 700000]"

definition unordered_listing :: listing_oracle where
  "unordered_listing course n =
     Inr [sample_discussion ''x'' ''finished'' 1000000,
          sample_discussion ''y'' ''recording'' 3000000,
          sample_discussion ''x'' ''finished'' 1000000,
          sample_discussion ''z'' ''finished'' 2000000]"

definition sample_client :: hy_client where
  "sample_client =
     \<lparr>get_discussion = (\<lambda>i. if i = ''d1'' then Inr (sample_discussion ''d1'' ''finished'' 0)
                             else if i = ''d2'' then Inr (sample_discussion ''d2'' ''finished'' 0)
                             else if i = ''d3'' then Inr (sample_discussion ''d3'' ''finished'' 0)
                             else Inl IndexError),
      get_asr = (\<lambda>d. if d_id d = ''d1''
                        then Inr [[(''text'', ''hello''), (''speaker'', ''s1'')], [(''text'', ''world'')]]
                      else if d_id d = ''d2''
                        then Inr [[(''text'', ''hello'')], [(''speaker'', ''s1'')]]
                      else Inl OtherException)\<rparr>"

definition sample_board :: json_dict where
  "sample_board = [(''id'', JStr ''b1''), (''name'', JStr ''Plan'')]"

definition sample_board_net :: board_oracle where
  "sample_board_net n = HttpOk sample_board"

definition failing_board_net :: board_oracle where
  "failing_board_net n = HttpError"

definition sample_page1 :: page where
  "sample_page1 = \<lparr>p_data = Some [JStr ''i1'', JStr ''i2''], p_cursor = Some ''c1''\<rparr>"

definition sample_page2 :: page where
  "sample_page2 = \<lparr>p_data = Some [JStr ''i3''], p_cursor = None\<rparr>"

definition sample_items_net :: "nat \<Rightarrow> items_oracle" where
  "sample_items_net first n =
     (if n = first then HttpOk sample_page1
      else if n = Suc first then HttpOk sample_page2
      else HttpError)"

definition failing_items_net :: "nat \<Rightarrow> items_oracle" where
  "failing_items_net first n = (if n = first then HttpOk sample_page1 else HttpError)"

definition endless_items_net :: items_oracle where
  "endless_items_net n = HttpOk sample_page1"

definition miro_start :: "json miro_world" where
  "miro_start = \<lparr>requests_sent = [], files = Map.empty\<rparr>"

definition sample_env :: "string \<rightharpoonup> string" where
  "sample_env = [''MIRO_ACCESS_TOKEN'' \<mapsto> ''tok'', ''MIRO_BOARD_ID'' \<mapsto> ''b1'']"

definition tokenless_env :: "string \<rightharpoonup> string" where
  "tokenless_env = [''MIRO_BOARD_ID'' \<mapsto> ''b1'']"

section \<open>Predicates used in the statements\<close>

text \<open>
  \<open>recordedAt_key\<close>: the second that the printed timestamp of a record spells.
  \<open>ids_ok\<close>: the identifiers collected so far are pairwise distinct and no more than the
  requested maximum (none when the maximum is negative).
  \<open>checks_quiet\<close>: between the worlds \<open>w\<close> and \<open>w'\<close> no timeout check but possibly the last
  one saw the timeout exceeded.
\<close>

definition recordedAt_key :: "discussion_info \<Rightarrow> int" where
  "recordedAt_key x = fst (i_recordedAt x)"

definition ids_ok :: "int \<Rightarrow> string list \<Rightarrow> bool" where
  "ids_ok maxd ids = (distinct ids \<and> int (length ids) \<le> max 0 maxd)"

definition checks_quiet :: "clock_oracle \<Rightarrow> int \<Rightarrow> real \<Rightarrow> hy_world \<Rightarrow> hy_world \<Rightarrow> bool" where
  "checks_quiet clock timeout start w w' =
     (list_calls w \<le> list_calls w' \<and>
      (\<forall>j. Suc j < list_calls w' - list_calls w \<longrightarrow>
            clock (clock_reads w + j) - start \<le> real_of_int timeout))"

section \<open>The polling loops\<close>

subsection \<open>One pass keeps the identifiers distinct and bounded\<close>

lemma gdi_scan_inv:
  "distinct ids \<Longrightarrow> int (length ids) < maxd \<Longrightarrow>
   (case gdi_scan maxd ds ids of
      Returned r \<Rightarrow> distinct r \<and> int (length r) = maxd
    | Fallthrough r \<Rightarrow> distinct r \<and> int (length r) < maxd)"
  by (induction maxd ds ids rule: gdi_scan.induct) auto

lemma grdi_scan_inv:
  "distinct ids \<Longrightarrow> int (length ids) < maxd \<Longrightarrow>
   (case grdi_scan maxd ds ids of
      Returned r \<Rightarrow> distinct r \<and> int (length r) = maxd
    | Fallthrough r \<Rightarrow> distinct r \<and> int (length r) < maxd)"
  by (induction maxd ds ids rule: grdi_scan.induct) auto

lemma checks_quiet_refl: "checks_quiet clock timeout start w w"
  by (simp add: checks_quiet_def)

lemma checks_quiet_one:
  "list_calls w' = Suc (list_calls w) \<Longrightarrow> checks_quiet clock timeout start w w'"
  by (simp add: checks_quiet_def)

lemma checks_quiet_step:
  assumes q: "checks_quiet clock timeout start w1 w'"
    and c: "list_calls w1 = Suc (list_calls w)" and r: "clock_reads w1 = Suc (clock_reads w)"
    and now: "\<not> real_of_int timeout < clock (clock_reads w) - start"
  shows "checks_quiet clock timeout start w w'"
  unfolding checks_quiet_def
proof (intro conjI allI impI)
  from q c show "list_calls w \<le> list_calls w'" by (simp add: checks_quiet_def)
next
  fix j assume j: "Suc j < list_calls w' - list_calls w"
  show "clock (clock_reads w + j) - start \<le> real_of_int timeout"
  proof (cases j)
    case 0
    with now show ?thesis by simp
  next
    case (Suc i)
    with j c have "Suc i < list_calls w' - list_calls w1" by simp
    with q have "clock (clock_reads w1 + i) - start \<le> real_of_int timeout"
      by (simp add: checks_quiet_def)
    with r Suc show ?thesis by simp
  qed
qed

lemma gdi_loop_trace:
  assumes run: "gdi_loop listing clock course maxd timeout start ids w = Some y"
  shows "checks_quiet clock timeout start w (snd y)"
proof (rule gdi_loop.raw_induct [where P = "\<lambda>(listing::listing_oracle) (clock::clock_oracle)
      (course::string) (maxd::int) (timeout::int) (start::real) (ids::string list) (w::hy_world) y.
      checks_quiet clock timeout start w (snd y)", OF _ run], goal_cases)
  case (1 loop listing clock course maxd timeout start ids w y)
  show ?case
  proof (cases "int (length ids) < maxd")
    case False
    with 1(2) show ?thesis by (auto simp: checks_quiet_refl)
  next
    case lt: True
    show ?thesis
    proof (cases "listing course (list_calls w)")
      case (Inl e)
      with 1(2) lt show ?thesis by (auto intro: checks_quiet_one)
    next
      case (Inr ds)
      show ?thesis
      proof (cases "gdi_scan maxd ds ids")
        case (Returned ids')
        with 1(2) lt Inr show ?thesis by (auto intro: checks_quiet_one)
      next
        case (Fallthrough ids')
        show ?thesis
        proof (cases "clock (clock_reads w) - start > real_of_int timeout")
          case True
          with 1(2) lt Inr Fallthrough show ?thesis by (auto intro: checks_quiet_one)
        next
          case False
          with 1(2) lt Inr Fallthrough
          have "loop listing clock course maxd timeout start ids'
                   (w\<lparr>list_calls := Suc (list_calls w), clock_reads := Suc (clock_reads w),
                      sleeps := Suc (sleeps w)\<rparr>) = Some y" by simp
          from checks_quiet_step [OF 1(1) [OF this] _ _ False] show ?thesis
            by simp
        qed
      qed
    qed
  qed
qed

lemma gdi_loop_returns:
  "real_of_int timeout < clock (clock_reads w + k) - start \<Longrightarrow>
   \<exists>y. gdi_loop listing clock course maxd timeout start ids w = Some y"
proof (induction k arbitrary: ids w)
  case 0
  then show ?case
    by (subst gdi_loop.simps) (simp split: sum.split pass_result.split)
next
  case (Suc k)
  show ?case
  proof (subst gdi_loop.simps, clarsimp split: sum.split pass_result.split)
    fix ds ids'
    show "\<exists>a b. gdi_loop listing clock course maxd timeout start ids'
            (w\<lparr>list_calls := Suc (list_calls w), clock_reads := Suc (clock_reads w),
               sleeps := Suc (sleeps w)\<rparr>) = Some (a, b)"
      using Suc.IH [of "w\<lparr>list_calls := Suc (list_calls w), clock_reads := Suc (clock_reads w),
               sleeps := Suc (sleeps w)\<rparr>" ids'] Suc.prems by simp
  qed
qed

lemma grdi_loop_trace:
  assumes run: "grdi_loop listing clock course maxd timeout start ids w = Some y"
  shows "checks_quiet clock timeout start w (snd y)"
proof (rule grdi_loop.raw_induct [where P = "\<lambda>(listing::listing_oracle) (clock::clock_oracle)
      (course::string) (maxd::int) (timeout::int) (start::real) (ids::string list) (w::hy_world) y.
      checks_quiet clock timeout start w (snd y)", OF _ run], goal_cases)
  case (1 loop listing clock course maxd timeout start ids w y)
  show ?case
  proof (cases "int (length ids) < maxd")
    case False
    with 1(2) show ?thesis by (auto simp: checks_quiet_refl)
  next
    case lt: True
    show ?thesis
    proof (cases "listing course (list_calls w)")
      case (Inl e)
      with 1(2) lt show ?thesis by (auto intro: checks_quiet_one)
    next
      case (Inr ds)
      show ?thesis
      proof (cases "grdi_scan maxd ds ids")
        case (Returned ids')
        with 1(2) lt Inr show ?thesis by (auto intro: checks_quiet_one)
      next
        case (Fallthrough ids')
        show ?thesis
        proof (cases "clock (clock_reads w) - start > real_of_int timeout")
          case True
          with 1(2) lt Inr Fallthrough show ?thesis by (auto intro: checks_quiet_one)
        next
          case False
          with 1(2) lt Inr Fallthrough
          have "loop listing clock course maxd timeout start ids'
                   (w\<lparr>list_calls := Suc (list_calls w), clock_reads := Suc (clock_reads w)\<rparr>) = Some y" by simp
          from checks_quiet_step [OF 1(1) [OF this] _ _ False] show ?thesis
            by simp
        qed
      qed
    qed
  qed
qed

lemma grdi_loop_returns:
  "real_of_int timeout < clock (clock_reads w + k) - start \<Longrightarrow>
   \<exists>y. grdi_loop listing clock course maxd timeout start ids w = Some y"
proof (induction k arbitrary: ids w)
  case 0
  then show ?case
    by (subst grdi_loop.simps) (simp split: sum.split pass_result.split)
next
  case (Suc k)
  show ?case
  proof (subst grdi_loop.simps, clarsimp split: sum.split pass_result.split)
    fix ds ids'
    show "\<exists>a b. grdi_loop listing clock course maxd timeout start ids'
            (w\<lparr>list_calls := Suc (list_calls w), clock_reads := Suc (clock_reads w)\<rparr>) = Some (a, b)"
      using Suc.IH [of "w\<lparr>list_calls := Suc (list_calls w), clock_reads := Suc (clock_reads w)\<rparr>" ids'] Suc.prems by simp
  qed
qed

lemma gdi_loop_inv:
  assumes run: "gdi_loop listing clock course maxd timeout start ids w = Some y"
  shows "ids_ok maxd ids \<longrightarrow> (\<forall>r. fst y = Inr r \<longrightarrow> ids_ok maxd r)"
proof (rule gdi_loop.raw_induct [where P = "\<lambda>(listing::listing_oracle) (clock::clock_oracle)
      (course::string) maxd (timeout::int) (start::real) ids (w::hy_world) y.
      ids_ok maxd ids \<longrightarrow> (\<forall>r. fst y = Inr r \<longrightarrow> ids_ok maxd r)", OF _ run], goal_cases)
  case (1 loop listing clock course maxd timeout start ids w y)
  show ?case
  proof (intro impI allI)
    fix r assume ok: "ids_ok maxd ids" and r: "fst y = Inr r"
    show "ids_ok maxd r"
    proof (cases "int (length ids) < maxd")
      case False
      with 1(2) r ok show ?thesis by auto
    next
      case lt: True
      from ok have d: "distinct ids" by (simp add: ids_ok_def)
      show ?thesis
      proof (cases "listing course (list_calls w)")
        case (Inl e)
        with 1(2) lt r show ?thesis by auto
      next
        case (Inr ds)
        note sc = gdi_scan_inv [OF d lt, of ds]
        show ?thesis
        proof (cases "gdi_scan maxd ds ids")
          case (Returned ids')
          with 1(2) lt r Inr sc show ?thesis by (auto simp: ids_ok_def)
        next
          case (Fallthrough ids')
          with sc have ok': "ids_ok maxd ids'" by (simp add: ids_ok_def)
          show ?thesis
          proof (cases "clock (clock_reads w) - start > real_of_int timeout")
            case True
            with 1(2) lt r Inr Fallthrough ok' show ?thesis by auto
          next
            case False
            with 1(2) lt Inr Fallthrough
            have "loop listing clock course maxd timeout start ids'
                     (w\<lparr>list_calls := Suc (list_calls w), clock_reads := Suc (clock_reads w),
                        sleeps := Suc (sleeps w)\<rparr>) = Some y" by simp
            from 1(1) [OF this] ok' r show ?thesis by blast
          qed
        qed
      qed
    qed
  qed
qed

lemma grdi_loop_inv:
  assumes run: "grdi_loop listing clock course maxd timeout start ids w = Some y"
  shows "ids_ok maxd ids \<longrightarrow> (\<forall>r. fst y = Inr r \<longrightarrow> ids_ok maxd r)"
proof (rule grdi_loop.raw_induct [where P = "\<lambda>(listing::listing_oracle) (clock::clock_oracle)
      (course::string) maxd (timeout::int) (start::real) ids (w::hy_world) y.
      ids_ok maxd ids \<longrightarrow> (\<forall>r. fst y = Inr r \<longrightarrow> ids_ok maxd r)", OF _ run], goal_cases)
  case (1 loop listing clock course maxd timeout start ids w y)
  show ?case
  proof (intro impI allI)
    fix r assume ok: "ids_ok maxd ids" and r: "fst y = Inr r"
    show "ids_ok maxd r"
    proof (cases "int (length ids) < maxd")
      case False
      with 1(2) r ok show ?thesis by auto
    next
      case lt: True
      from ok have d: "distinct ids" by (simp add: ids_ok_def)
      show ?thesis
      proof (cases "listing course (list_calls w)")
        case (Inl e)
        with 1(2) lt r show ?thesis by auto
      next
        case (Inr ds)
        note sc = grdi_scan_inv [OF d lt, of ds]
        show ?thesis
        proof (cases "grdi_scan maxd ds ids")
          case (Returned ids')
          with 1(2) lt r Inr sc show ?thesis by (auto simp: ids_ok_def)
        next
          case (Fallthrough ids')
          with sc have ok': "ids_ok maxd ids'" by (simp add: ids_ok_def)
          show ?thesis
          proof (cases "clock (clock_reads w) - start > real_of_int timeout")
            case True
            with 1(2) lt r Inr Fallthrough ok' show ?thesis by auto
          next
            case False
            with 1(2) lt Inr Fallthrough
            have "loop listing clock course maxd timeout start ids'
                     (w\<lparr>list_calls := Suc (list_calls w), clock_reads := Suc (clock_reads w)\<rparr>) = Some y" by simp
            from 1(1) [OF this] ok' r show ?thesis by blast
          qed
        qed
      qed
    qed
  qed
qed

subsection \<open>The full enumeration makes one pass\<close>

lemma gadi_scan_inv:
  "found = set (map i_id discs) \<Longrightarrow> distinct (map i_id discs) \<Longrightarrow>
   snd (gadi_scan ds discs found) = set (map i_id (fst (gadi_scan ds discs found))) \<and>
   distinct (map i_id (fst (gadi_scan ds discs found)))"
  by (induction ds discs found rule: gadi_scan.induct) (auto simp: discussion_info_of_def)

lemma gadi_scan_card:
  "card (snd (gadi_scan ds [] {})) = length (fst (gadi_scan ds [] {}))"
proof -
  from gadi_scan_inv [of "{}" "[]" ds]
  have s: "snd (gadi_scan ds [] {}) = set (map i_id (fst (gadi_scan ds [] {})))"
    and d: "distinct (map i_id (fst (gadi_scan ds [] {})))" by simp_all
  from distinct_card [OF d] s show ?thesis by simp
qed

lemma gadi_loop_first_pass:
  "gadi_loop listing clock course timeout start [] {} w =
     (case listing course (list_calls w) of
        Inl e \<Rightarrow> Some (Inl e, w\<lparr>list_calls := Suc (list_calls w)\<rparr>)
      | Inr ds \<Rightarrow> Some (Inr (fst (gadi_scan ds [] {})),
                        w\<lparr>list_calls := Suc (list_calls w), clock_reads := Suc (clock_reads w)\<rparr>))"
proof (cases "listing course (list_calls w)")
  case (Inl e)
  then show ?thesis by (subst gadi_loop.simps) simp
next
  case (Inr ds)
  obtain discs found where sc: "gadi_scan ds [] {} = (discs, found)"
    by (cases "gadi_scan ds [] {}")
  with gadi_scan_card [of ds] have "card found = length discs" by simp
  with Inr sc show ?thesis by (subst gadi_loop.simps) simp
qed

lemma gadi_single_pass:
  "get_all_discussion_ids h listing clock course timeout w =
     (case listing course (list_calls w) of
        Inl e \<Rightarrow> Some (Inl e, w\<lparr>clock_reads := Suc (clock_reads w), list_calls := Suc (list_calls w)\<rparr>)
      | Inr ds \<Rightarrow> Some (sort_by_recordedAt h (fst (gadi_scan ds [] {})),
                        w\<lparr>clock_reads := Suc (Suc (clock_reads w)), list_calls := Suc (list_calls w)\<rparr>))"
  by (simp add: get_all_discussion_ids_def gadi_loop_first_pass split: sum.split)

lemma quiet_pass_bound:
  assumes q: "checks_quiet clock timeout (clock r) w1 w'"
    and r: "clock_reads w1 = Suc r"
    and late: "real_of_int timeout < clock (r + Suc k) - clock r"
  shows "list_calls w' \<le> list_calls w1 + Suc k"
proof (rule ccontr)
  assume "\<not> list_calls w' \<le> list_calls w1 + Suc k"
  then have "Suc k < list_calls w' - list_calls w1" by simp
  with q have "clock (clock_reads w1 + k) - clock r \<le> real_of_int timeout"
    by (simp add: checks_quiet_def)
  with r late show False by simp
qed

lemma quiet_time_bound:
  fixes delta :: real
  assumes q: "checks_quiet clock timeout (clock r) w1 w'"
    and r: "clock_reads w1 = Suc r"
    and t: "0 \<le> timeout" and d: "0 \<le> delta"
    and gap: "\<forall>n. clock (Suc n) - clock n \<le> delta"
  shows "clock (r + (list_calls w' - list_calls w1)) - clock r \<le> real_of_int timeout + delta"
proof (cases "list_calls w' - list_calls w1")
  case 0
  with t d show ?thesis by simp
next
  case (Suc m)
  show ?thesis
  proof (cases m)
    case 0
    from gap have "clock (Suc r) - clock r \<le> delta" by blast
    with Suc 0 t show ?thesis by simp
  next
    case (Suc j)
    with \<open>list_calls w' - list_calls w1 = Suc m\<close>
    have p: "list_calls w' - list_calls w1 = Suc (Suc j)" by simp
    then have "Suc j < list_calls w' - list_calls w1" by simp
    with q have a: "clock (clock_reads w1 + j) - clock r \<le> real_of_int timeout"
      by (simp add: checks_quiet_def)
    from gap have "clock (Suc (Suc (r + j))) - clock (Suc (r + j)) \<le> delta" by blast
    with a r p show ?thesis by simp
  qed
qed

subsection \<open>Claims on the polling loops\<close>

text \<open>
  C8. Once a timeout check reads an elapsed time above the timeout, the loop returns: if
  the reading taken after pass \<open>k + 1\<close> exceeds the timeout, each of the three polling
  functions returns and has made at most \<open>k + 1\<close> listing passes. The pass in which, or
  before which, the time ran out is therefore the last one. When moreover consecutive
  readings of the clock are never more than \<open>delta\<close> apart (one poll interval: a listing
  pass and the sleep before it) and the timeout is not negative, the clock reading that
  follows the last pass (the one the loop takes on leaving, or would have taken had it not
  returned from inside the pass) is at most timeout plus \<open>delta\<close> after the start.
\<close>

theorem polling_stops_after_timeout:
  fixes delta :: real
  assumes late: "real_of_int timeout < clock (clock_reads w + Suc k) - clock (clock_reads w)"
  shows
    "(\<exists>r w'. get_discussion_ids listing clock course maxd timeout w = Some (r, w') \<and>
        list_calls w' \<le> list_calls w + Suc k \<and>
        (0 \<le> timeout \<and> 0 \<le> delta \<and> (\<forall>n. clock (Suc n) - clock n \<le> delta) \<longrightarrow>
           clock (clock_reads w + (list_calls w' - list_calls w)) - clock (clock_reads w)
             \<le> real_of_int timeout + delta)) \<and>
     (\<exists>r w'. get_recording_discussion_ids listing clock course maxd timeout w = Some (r, w') \<and>
        list_calls w' \<le> list_calls w + Suc k \<and>
        (0 \<le> timeout \<and> 0 \<le> delta \<and> (\<forall>n. clock (Suc n) - clock n \<le> delta) \<longrightarrow>
           clock (clock_reads w + (list_calls w' - list_calls w)) - clock (clock_reads w)
             \<le> real_of_int timeout + delta)) \<and>
     (\<exists>r w'. get_all_discussion_ids h listing clock course timeout w = Some (r, w') \<and>
        list_calls w' \<le> list_calls w + Suc k \<and>
        (0 \<le> timeout \<and> 0 \<le> delta \<and> (\<forall>n. clock (Suc n) - clock n \<le> delta) \<longrightarrow>
           clock (clock_reads w + (list_calls w' - list_calls w)) - clock (clock_reads w)
             \<le> real_of_int timeout + delta))"
proof (intro conjI)
  let ?w1 = "w\<lparr>clock_reads := Suc (clock_reads w)\<rparr>"
  let ?start = "clock (clock_reads w)"
  from late have late1: "real_of_int timeout < clock (clock_reads ?w1 + k) - ?start" by simp
  show "\<exists>r w'. get_discussion_ids listing clock course maxd timeout w = Some (r, w') \<and>
        list_calls w' \<le> list_calls w + Suc k \<and>
        (0 \<le> timeout \<and> 0 \<le> delta \<and> (\<forall>n. clock (Suc n) - clock n \<le> delta) \<longrightarrow>
           clock (clock_reads w + (list_calls w' - list_calls w)) - clock (clock_reads w)
             \<le> real_of_int timeout + delta)"
  proof -
    from gdi_loop_returns [of timeout clock ?w1 k ?start listing course maxd "[]"] late1 obtain y
      where run: "gdi_loop listing clock course maxd timeout ?start [] ?w1 = Some y" by blast
    from gdi_loop_trace [OF run] have q: "checks_quiet clock timeout ?start ?w1 (snd y)" .
    from quiet_pass_bound [OF q _ late] have b: "list_calls (snd y) \<le> list_calls w + Suc k" by simp
    have "0 \<le> timeout \<and> 0 \<le> delta \<and> (\<forall>n. clock (Suc n) - clock n \<le> delta) \<longrightarrow>
           clock (clock_reads w + (list_calls (snd y) - list_calls w)) - clock (clock_reads w)
             \<le> real_of_int timeout + delta"
      using quiet_time_bound [OF q, of delta] by simp
    with run b show ?thesis by (cases y) (simp add: get_discussion_ids_def)
  qed
  show "\<exists>r w'. get_recording_discussion_ids listing clock course maxd timeout w = Some (r, w') \<and>
        list_calls w' \<le> list_calls w + Suc k \<and>
        (0 \<le> timeout \<and> 0 \<le> delta \<and> (\<forall>n. clock (Suc n) - clock n \<le> delta) \<longrightarrow>
           clock (clock_reads w + (list_calls w' - list_calls w)) - clock (clock_reads w)
             \<le> real_of_int timeout + delta)"
  proof -
    from grdi_loop_returns [of timeout clock ?w1 k ?start listing course maxd "[]"] late1 obtain y
      where run: "grdi_loop listing clock course maxd timeout ?start [] ?w1 = Some y" by blast
    from grdi_loop_trace [OF run] have q: "checks_quiet clock timeout ?start ?w1 (snd y)" .
    from quiet_pass_bound [OF q _ late] have b: "list_calls (snd y) \<le> list_calls w + Suc k" by simp
    have "0 \<le> timeout \<and> 0 \<le> delta \<and> (\<forall>n. clock (Suc n) - clock n \<le> delta) \<longrightarrow>
           clock (clock_reads w + (list_calls (snd y) - list_calls w)) - clock (clock_reads w)
             \<le> real_of_int timeout + delta"
      using quiet_time_bound [OF q, of delta] by simp
    with run b show ?thesis by (cases y) (simp add: get_recording_discussion_ids_def)
  qed
  show "\<exists>r w'. get_all_discussion_ids h listing clock course timeout w = Some (r, w') \<and>
        list_calls w' \<le> list_calls w + Suc k \<and>
        (0 \<le> timeout \<and> 0 \<le> delta \<and> (\<forall>n. clock (Suc n) - clock n \<le> delta) \<longrightarrow>
           clock (clock_reads w + (list_calls w' - list_calls w)) - clock (clock_reads w)
             \<le> real_of_int timeout + delta)"
  proof -
    have "0 \<le> timeout \<and> 0 \<le> delta \<and> (\<forall>n. clock (Suc n) - clock n \<le> delta) \<longrightarrow>
           clock (Suc (clock_reads w)) - clock (clock_reads w) \<le> real_of_int timeout + delta"
    proof (intro impI, elim conjE)
      assume "0 \<le> timeout" "0 \<le> delta" and gap: "\<forall>n. clock (Suc n) - clock n \<le> delta"
      from gap have "clock (Suc (clock_reads w)) - clock (clock_reads w) \<le> delta" by blast
      with \<open>0 \<le> timeout\<close> show "clock (Suc (clock_reads w)) - clock (clock_reads w)
             \<le> real_of_int timeout + delta" by simp
    qed
    then show ?thesis
      by (cases "listing course (list_calls w)") (simp_all add: gadi_single_pass)
  qed
qed

theorem polling_stops_after_timeout_witness:
  "real_of_int 30 < ticking_clock 20 (clock_reads hy_start + Suc 1)
                      - ticking_clock 20 (clock_reads hy_start) \<and>
   (0 \<le> (30::int) \<and> 0 \<le> (20::real) \<and>
      (\<forall>n. ticking_clock 20 (Suc n) - ticking_clock 20 n \<le> 20)) \<and>
   (\<exists>r w'. get_discussion_ids empty_listing (ticking_clock 20) ''crs'' 3 30 hy_start = Some (r, w') \<and>
      list_calls w' \<le> 2 \<and> ticking_clock 20 (list_calls w') - ticking_clock 20 0 \<le> 50) \<and>
   (\<exists>r w'. get_recording_discussion_ids empty_listing (ticking_clock 20) ''crs'' 3 30 hy_start
               = Some (r, w') \<and>
      list_calls w' \<le> 2 \<and> ticking_clock 20 (list_calls w') - ticking_clock 20 0 \<le> 50) \<and>
   (\<exists>r w'. get_all_discussion_ids japan_host empty_listing (ticking_clock 20) ''crs'' 30 hy_start = Some (r, w') \<and>
      list_calls w' \<le> 2 \<and> ticking_clock 20 (list_calls w') - ticking_clock 20 0 \<le> 50)"
proof -
  have late: "real_of_int 30 < ticking_clock 20 (clock_reads hy_start + Suc 1)
                      - ticking_clock 20 (clock_reads hy_start)"
    by (simp add: ticking_clock_def hy_start_def)
  have gap: "\<forall>n. ticking_clock 20 (Suc n) - ticking_clock 20 n \<le> 20"
    by (simp add: ticking_clock_def algebra_simps)
  from polling_stops_after_timeout [OF late, of empty_listing "''crs''" 3 20] gap late
  show ?thesis by (simp add: hy_start_def numeral_2_eq_2)
qed

text \<open>
  C10. With a maximum of zero or less the guard of the while loop fails at once:
  \<^verbatim>\<open>get_discussion_ids\<close> and \<^verbatim>\<open>get_recording_discussion_ids\<close> return the empty list,
  having read the clock once and made no listing call.
\<close>

theorem nonpositive_maximum_lists_nothing:
  assumes "maxd \<le> 0"
  shows "get_discussion_ids listing clock course maxd timeout w
           = Some (Inr [], w\<lparr>clock_reads := Suc (clock_reads w)\<rparr>) \<and>
         get_recording_discussion_ids listing clock course maxd timeout w
           = Some (Inr [], w\<lparr>clock_reads := Suc (clock_reads w)\<rparr>) \<and>
         list_calls (w\<lparr>clock_reads := Suc (clock_reads w)\<rparr>) = list_calls w"
  using assms
  by (simp add: get_discussion_ids_def get_recording_discussion_ids_def
      gdi_loop.simps [of _ _ _ maxd _ _ "[]"] grdi_loop.simps [of _ _ _ maxd _ _ "[]"])

theorem nonpositive_maximum_lists_nothing_witness:
  "(-2::int) \<le> 0 \<and>
   get_discussion_ids growing_listing (ticking_clock 1) ''crs'' (-2) 30 hy_start
     = Some (Inr [], \<lparr>list_calls = 0, clock_reads = 1, sleeps = 0\<rparr>) \<and>
   get_recording_discussion_ids growing_listing (ticking_clock 1) ''crs'' (-2) 30 hy_start
     = Some (Inr [], \<lparr>list_calls = 0, clock_reads = 1, sleeps = 0\<rparr>)"
  using nonpositive_maximum_lists_nothing [of "-2" growing_listing "ticking_clock 1" "''crs''" 30 hy_start]
  by (simp add: hy_start_def)

text \<open>
  C5, as stated, for every maximum: the returned identifiers are pairwise distinct and
  their number is at most \<^verbatim>\<open>max_discussions\<close>. It fails for a negative maximum, where
  the empty list is returned and its length, zero, is above the maximum.
\<close>

theorem polled_ids_counterexample:
  "get_discussion_ids empty_listing (ticking_clock 1) ''crs'' (-1) 30 hy_start
     = Some (Inr [], \<lparr>list_calls = 0, clock_reads = 1, sleeps = 0\<rparr>) \<and>
   \<not> int (length ([] :: string list)) \<le> -1"
  by (simp add: get_discussion_ids_def hy_start_def gdi_loop.simps [of _ _ _ "-1" _ _ "[]"])

text \<open>
  C5, amended: whenever one of the two identifier-polling functions returns a list, its
  identifiers are pairwise distinct and their number is at most \<^verbatim>\<open>max_discussions\<close>, or
  zero when that is negative. And the functions do return when some timeout check reads an
  elapsed time above the timeout.
\<close>

theorem polled_ids_distinct_and_bounded:
  "(\<forall>ids w'. get_discussion_ids listing clock course maxd timeout w = Some (Inr ids, w') \<longrightarrow>
      distinct ids \<and> int (length ids) \<le> max 0 maxd) \<and>
   (\<forall>ids w'. get_recording_discussion_ids listing clock course maxd timeout w = Some (Inr ids, w') \<longrightarrow>
      distinct ids \<and> int (length ids) \<le> max 0 maxd) \<and>
   ((\<exists>k. real_of_int timeout < clock (clock_reads w + Suc k) - clock (clock_reads w)) \<longrightarrow>
      (\<exists>y. get_discussion_ids listing clock course maxd timeout w = Some y) \<and>
      (\<exists>y. get_recording_discussion_ids listing clock course maxd timeout w = Some y))"
proof (intro conjI allI impI)
  fix ids w'
  assume "get_discussion_ids listing clock course maxd timeout w = Some (Inr ids, w')"
  from gdi_loop_inv [OF this [unfolded get_discussion_ids_def]]
  have "ids_ok maxd ids" by (simp add: ids_ok_def)
  then show "distinct ids" and "int (length ids) \<le> max 0 maxd" by (simp_all add: ids_ok_def)
next
  fix ids w'
  assume "get_recording_discussion_ids listing clock course maxd timeout w = Some (Inr ids, w')"
  from grdi_loop_inv [OF this [unfolded get_recording_discussion_ids_def]]
  have "ids_ok maxd ids" by (simp add: ids_ok_def)
  then show "distinct ids" and "int (length ids) \<le> max 0 maxd" by (simp_all add: ids_ok_def)
next
  assume "\<exists>k. real_of_int timeout < clock (clock_reads w + Suc k) - clock (clock_reads w)"
  then obtain k where "real_of_int timeout < clock (clock_reads w + Suc k) - clock (clock_reads w)" ..
  then have late: "real_of_int timeout
      < clock (clock_reads (w\<lparr>clock_reads := Suc (clock_reads w)\<rparr>) + k) - clock (clock_reads w)"
    by simp
  from gdi_loop_returns [of timeout clock _ k _ listing course maxd "[]"] late
  show "\<exists>y. get_discussion_ids listing clock course maxd timeout w = Some y"
    unfolding get_discussion_ids_def by blast
  from grdi_loop_returns [of timeout clock _ k _ listing course maxd "[]"] late
  show "\<exists>y. get_recording_discussion_ids listing clock course maxd timeout w = Some y"
    unfolding get_recording_discussion_ids_def by blast
qed

theorem polled_ids_distinct_and_bounded_witness:
  "(\<exists>ids w'. get_discussion_ids growing_listing (ticking_clock 20) ''crs'' 2 30 hy_start
        = Some (Inr ids, w') \<and> distinct ids \<and> int (length ids) \<le> max 0 2) \<and>
   (\<exists>ids w'. get_recording_discussion_ids growing_listing (ticking_clock 20) ''crs'' 2 30 hy_start
        = Some (Inr ids, w') \<and> distinct ids \<and> int (length ids) \<le> max 0 2) \<and>
   (\<exists>k. real_of_int 30 < ticking_clock 20 (clock_reads hy_start + Suc k)
                            - ticking_clock 20 (clock_reads hy_start))"
proof -
  note claim = polled_ids_distinct_and_bounded
    [of growing_listing "ticking_clock 20" "''crs''" 2 30 hy_start]
  have g: "get_discussion_ids growing_listing (ticking_clock 20) ''crs'' 2 30 hy_start
        = Some (Inr [''d1'', ''d2''], \<lparr>list_calls = 2, clock_reads = 2, sleeps = 1\<rparr>)"
    by (simp add: get_discussion_ids_def hy_start_def gdi_loop.simps growing_listing_def
        sample_discussion_def ticking_clock_def)
  have r: "get_recording_discussion_ids growing_listing (ticking_clock 20) ''crs'' 2 30 hy_start
        = Some (Inr [''d1'', ''d2''], \<lparr>list_calls = 2, clock_reads = 2, sleeps = 0\<rparr>)"
    by (simp add: get_recording_discussion_ids_def hy_start_def grdi_loop.simps growing_listing_def
        sample_discussion_def ticking_clock_def)
  have k: "real_of_int 30 < ticking_clock 20 (clock_reads hy_start + Suc 1)
                            - ticking_clock 20 (clock_reads hy_start)"
    by (simp add: ticking_clock_def hy_start_def)
  from claim [THEN conjunct1, rule_format, OF g] g
  have a: "\<exists>ids w'. get_discussion_ids growing_listing (ticking_clock 20) ''crs'' 2 30 hy_start
        = Some (Inr ids, w') \<and> distinct ids \<and> int (length ids) \<le> max 0 2" by blast
  from claim [THEN conjunct2, THEN conjunct1, rule_format, OF r] r
  have b: "\<exists>ids w'. get_recording_discussion_ids growing_listing (ticking_clock 20) ''crs'' 2 30
        hy_start = Some (Inr ids, w') \<and> distinct ids \<and> int (length ids) \<le> max 0 2" by blast
  from a b k show ?thesis by blast
qed

subsection \<open>Claims on the full enumeration\<close>

lemma gadi_scan_found:
  "snd (gadi_scan ds discs found) = found \<union> d_id ` set ds"
  by (induction ds discs found rule: gadi_scan.induct) auto

lemma gadi_scan_from:
  "set (fst (gadi_scan ds discs found)) \<subseteq> set discs \<union> discussion_info_of ` set ds"
  by (induction ds discs found rule: gadi_scan.induct) auto

lemma recordedAt_keys_parsed:
  "recordedAt_keys h xs = Inr ks \<Longrightarrow> ks = map recordedAt_key xs"
  by (induction xs arbitrary: ks)
     (auto simp: strptime_def recordedAt_key_def split: sum.splits if_splits)

lemma recordedAt_keys_accepted:
  "\<forall>x \<in> set xs. map ascii_lower (snd (i_recordedAt x)) \<in> set (zone_names h) \<Longrightarrow>
   recordedAt_keys h xs = Inr (map recordedAt_key xs)"
  by (induction xs) (auto simp: strptime_def recordedAt_key_def)

lemma recordedAt_keys_refused:
  "\<exists>x \<in> set xs. map ascii_lower (snd (i_recordedAt x)) \<notin> set (zone_names h) \<Longrightarrow>
   recordedAt_keys h xs = Inl ValueError"
  by (induction xs) (auto simp: strptime_def split: sum.splits)

lemma insort_key_zip:
  "\<forall>q \<in> set qs. fst q = f (snd q) \<Longrightarrow>
   map snd (insort_key (\<lambda>p. - fst p) (f x, x) qs) = insort_key (\<lambda>x. - f x) x (map snd qs)"
  by (induction qs) auto

lemma sort_key_zip_keys:
  "\<forall>q \<in> set (sort_key (\<lambda>p. - fst p) (zip (map f xs) xs)). fst q = f (snd q)"
  by (auto simp: in_set_zip)

lemma sort_reverse_keys:
  "sort_reverse (map f xs) xs = sort_key (\<lambda>x. - f x) xs"
  unfolding sort_reverse_def
proof (induction xs)
  case Nil
  show ?case by simp
next
  case (Cons x xs)
  let ?qs = "sort_key (\<lambda>p. - fst p) (zip (map f xs) xs)"
  have "\<forall>q \<in> set ?qs. fst q = f (snd q)" by (rule sort_key_zip_keys)
  then have "map snd (insort_key (\<lambda>p. - fst p) (f x, x) ?qs)
               = insort_key (\<lambda>x. - f x) x (map snd ?qs)" by (rule insort_key_zip)
  with Cons show ?case by simp
qed

lemma sort_reverse_sorted:
  "sorted_wrt (\<lambda>a b. key a \<ge> key b) (sort_reverse (map key xs) xs)"
proof -
  have "sorted (map (\<lambda>x. - key x) (sort_key (\<lambda>x. - key x) xs))" by (rule sorted_sort_key)
  then show ?thesis by (simp add: sort_reverse_keys sorted_wrt_map)
qed

lemma sort_reverse_mset: "mset (sort_reverse (map key xs) xs) = mset xs"
  by (simp add: sort_reverse_keys)

lemma gadi_scan_zone:
  "\<forall>x \<in> set discs. snd (i_recordedAt x) = ''JST'' \<Longrightarrow>
   \<forall>x \<in> set (fst (gadi_scan ds discs found)). snd (i_recordedAt x) = ''JST''"
  by (induction ds discs found rule: gadi_scan.induct)
     (auto simp: discussion_info_of_def jst_strftime_def)

lemmas sample_run_simps =
  gadi_single_pass hy_start_def sort_by_recordedAt_def sort_reverse_def strptime_def
  zone_names_def japan_host_def utc_host_def ascii_lower_def recordedAt_key_def
  discussion_info_of_def sample_discussion_def jst_strftime_def

text \<open>
  C1. The claim is that \<^verbatim>\<open>get_all_discussion_ids\<close> lists again and again until a pass
  brings no new identifier or the timeout has elapsed. The code does not: the test of
  line 172 compares the sizes of a set and a list that grow together, so it always holds,
  and the function makes exactly one listing pass whatever that pass found, on every host.
  On the sample service the first pass finds the new identifier d1, the clock reads one
  second against a timeout of thirty, a second pass would find d2, and the function has
  already returned with d1 alone after one listing call (on a host in Japan time; on a
  host whose zone names lack JST it has raised, also after one listing call).
\<close>

theorem enumeration_stops_after_first_pass:
  "(\<exists>r w'. get_all_discussion_ids h listing clock course timeout w = Some (r, w') \<and>
       list_calls w' = Suc (list_calls w)) \<and>
   get_all_discussion_ids japan_host growing_listing (ticking_clock 1) ''crs'' 30 hy_start
     = Some (Inr [discussion_info_of (sample_discussion ''d1'' ''recording'' 0)],
             \<lparr>list_calls = 1, clock_reads = 2, sleeps = 0\<rparr>) \<and>
   get_all_discussion_ids utc_host growing_listing (ticking_clock 1) ''crs'' 30 hy_start
     = Some (Inl ValueError, \<lparr>list_calls = 1, clock_reads = 2, sleeps = 0\<rparr>) \<and>
   ticking_clock 1 1 - ticking_clock 1 0 \<le> real_of_int 30 \<and>
   growing_listing ''crs'' 1
     = Inr [sample_discussion ''d1'' ''recording'' 0,
            sample_discussion ''d2'' ''recording'' 5000000]"
proof (intro conjI)
  show "\<exists>r w'. get_all_discussion_ids h listing clock course timeout w = Some (r, w') \<and>
       list_calls w' = Suc (list_calls w)"
    by (cases "listing course (list_calls w)") (simp_all add: gadi_single_pass)
  show "get_all_discussion_ids japan_host growing_listing (ticking_clock 1) ''crs'' 30 hy_start
     = Some (Inr [discussion_info_of (sample_discussion ''d1'' ''recording'' 0)],
             \<lparr>list_calls = 1, clock_reads = 2, sleeps = 0\<rparr>)"
    by (simp add: sample_run_simps growing_listing_def)
  show "get_all_discussion_ids utc_host growing_listing (ticking_clock 1) ''crs'' 30 hy_start
     = Some (Inl ValueError, \<lparr>list_calls = 1, clock_reads = 2, sleeps = 0\<rparr>)"
    by (simp add: sample_run_simps growing_listing_def)
  show "ticking_clock 1 1 - ticking_clock 1 0 \<le> real_of_int 30"
    by (simp add: ticking_clock_def)
  show "growing_listing ''crs'' 1
     = Inr [sample_discussion ''d1'' ''recording'' 0,
            sample_discussion ''d2'' ''recording'' 5000000]"
    by (simp add: growing_listing_def)
qed

text \<open>
  C3, as stated: the returned list is sorted descending by the recorded-at timestamp. On
  a host in Japan time, where line 176 can read the printed timestamps back, two
  discussions recorded 0.2 s and 0.7 s into the same second come back with the earlier
  one first: the sort key is the printed text, which stops at the second, and the sort is
  stable, so the two keep their listing order although their timestamps differ.
\<close>

theorem enumeration_order_counterexample:
  "get_all_discussion_ids japan_host subsecond_listing (ticking_clock 1) ''crs'' 30 hy_start
     = Some (Inr [discussion_info_of (sample_discussion ''c'' ''finished'' 200000),
                  discussion_info_of (sample_discussion ''d'' ''finished'' 700000)],
             \<lparr>list_calls = 1, clock_reads = 2, sleeps = 0\<rparr>) \<and>
   d_recordedAt (sample_discussion ''c'' ''finished'' 200000)
     < d_recordedAt (sample_discussion ''d'' ''finished'' 700000)"
  by (simp add: sample_run_simps subsecond_listing_def)

text \<open>
  C3, amended: whenever \<^verbatim>\<open>get_all_discussion_ids\<close> returns a list, the list is in
  descending order of the recorded-at timestamp as printed in the display timezone, that
  is to the whole second: the second of each record is at least that of the next. The
  list is a rearrangement of the records collected from the listing, one per distinct
  identifier. On a host whose zone names include JST the function does return a list
  whenever the listing call succeeds.
\<close>

theorem enumeration_sorted_descending:
  "(\<forall>r w'. get_all_discussion_ids h listing clock course timeout w = Some (Inr r, w') \<longrightarrow>
      sorted_wrt (\<lambda>a b. recordedAt_key a \<ge> recordedAt_key b) r \<and>
      distinct (map i_id r) \<and>
      (\<exists>ds. listing course (list_calls w) = Inr ds \<and>
            mset r = mset (fst (gadi_scan ds [] {})) \<and>
            set (map i_id r) = set (map d_id ds) \<and>
            set r \<subseteq> discussion_info_of ` set ds)) \<and>
   (\<forall>ds. ''jst'' \<in> set (zone_names h) \<and> listing course (list_calls w) = Inr ds \<longrightarrow>
      (\<exists>r w'. get_all_discussion_ids h listing clock course timeout w = Some (Inr r, w')))"
proof (rule conjI; intro allI impI)
  fix r w'
  assume run: "get_all_discussion_ids h listing clock course timeout w = Some (Inr r, w')"
  show "sorted_wrt (\<lambda>a b. recordedAt_key a \<ge> recordedAt_key b) r \<and>
      distinct (map i_id r) \<and>
      (\<exists>ds. listing course (list_calls w) = Inr ds \<and>
            mset r = mset (fst (gadi_scan ds [] {})) \<and>
            set (map i_id r) = set (map d_id ds) \<and>
            set r \<subseteq> discussion_info_of ` set ds)"
  proof (cases "listing course (list_calls w)")
    case (Inl e)
    with run show ?thesis by (simp add: gadi_single_pass)
  next
    case (Inr ds)
    let ?c = "fst (gadi_scan ds [] {})"
    from run Inr have "sort_by_recordedAt h ?c = Inr r" by (simp add: gadi_single_pass)
    then obtain ks where ks: "recordedAt_keys h ?c = Inr ks" and r0: "r = sort_reverse ks ?c"
      by (auto simp: sort_by_recordedAt_def split: sum.splits)
    from recordedAt_keys_parsed [OF ks] r0
    have r: "r = sort_reverse (map recordedAt_key ?c) ?c" by simp
    have m: "mset r = mset ?c" by (simp add: r sort_reverse_mset)
    then have s: "set r = set ?c" by (rule mset_eq_setD)
    from gadi_scan_inv [of "{}" "[]" ds]
    have f: "snd (gadi_scan ds [] {}) = set (map i_id ?c)" and d: "distinct (map i_id ?c)"
      by simp_all
    from m have "mset (map i_id r) = mset (map i_id ?c)" by simp
    with d have d': "distinct (map i_id r)" by (metis mset_eq_imp_distinct_iff)
    from f gadi_scan_found [of ds "[]" "{}"] s have i: "set (map i_id r) = set (map d_id ds)"
      by simp
    from gadi_scan_from [of ds "[]" "{}"] s have u: "set r \<subseteq> discussion_info_of ` set ds"
      by simp
    from sort_reverse_sorted [of recordedAt_key ?c] r d' Inr m i u show ?thesis by blast
  qed
next
  fix ds
  assume a: "''jst'' \<in> set (zone_names h) \<and> listing course (list_calls w) = Inr ds"
  let ?c = "fst (gadi_scan ds [] {})"
  from gadi_scan_zone [of "[]" ds "{}"]
  have "\<forall>x \<in> set ?c. snd (i_recordedAt x) = ''JST''" by simp
  with a have "\<forall>x \<in> set ?c. map ascii_lower (snd (i_recordedAt x)) \<in> set (zone_names h)"
    by (simp add: ascii_lower_def)
  from recordedAt_keys_accepted [OF this] a
  show "\<exists>r w'. get_all_discussion_ids h listing clock course timeout w = Some (Inr r, w')"
    by (simp add: gadi_single_pass sort_by_recordedAt_def)
qed

theorem enumeration_sorted_descending_witness:
  "get_all_discussion_ids japan_host unordered_listing (ticking_clock 1) ''crs'' 30 hy_start
     = Some (Inr [discussion_info_of (sample_discussion ''y'' ''recording'' 3000000),
                  discussion_info_of (sample_discussion ''z'' ''finished'' 2000000),
                  discussion_info_of (sample_discussion ''x'' ''finished'' 1000000)],
             \<lparr>list_calls = 1, clock_reads = 2, sleeps = 0\<rparr>) \<and>
   sorted_wrt (\<lambda>a b. recordedAt_key a \<ge> recordedAt_key b)
     [discussion_info_of (sample_discussion ''y'' ''recording'' 3000000),
      discussion_info_of (sample_discussion ''z'' ''finished'' 2000000),
      discussion_info_of (sample_discussion ''x'' ''finished'' 1000000)] \<and>
   distinct (map i_id
     [discussion_info_of (sample_discussion ''y'' ''recording'' 3000000),
      discussion_info_of (sample_discussion ''z'' ''finished'' 2000000),
      discussion_info_of (sample_discussion ''x'' ''finished'' 1000000)]) \<and>
   ''jst'' \<in> set (zone_names japan_host) \<and>
   (\<exists>r w'. get_all_discussion_ids japan_host unordered_listing (ticking_clock 1) ''crs'' 30
              hy_start = Some (Inr r, w'))"
proof -
  note claim = enumeration_sorted_descending
    [of japan_host unordered_listing "ticking_clock 1" "''crs''" 30 hy_start]
  have run: "get_all_discussion_ids japan_host unordered_listing (ticking_clock 1) ''crs'' 30
      hy_start
     = Some (Inr [discussion_info_of (sample_discussion ''y'' ''recording'' 3000000),
                  discussion_info_of (sample_discussion ''z'' ''finished'' 2000000),
                  discussion_info_of (sample_discussion ''x'' ''finished'' 1000000)],
             \<lparr>list_calls = 1, clock_reads = 2, sleeps = 0\<rparr>)"
    by (simp add: sample_run_simps unordered_listing_def)
  have z: "''jst'' \<in> set (zone_names japan_host)"
    by (simp add: zone_names_def japan_host_def ascii_lower_def)
  have l: "unordered_listing ''crs'' (list_calls hy_start)
     = Inr [sample_discussion ''x'' ''finished'' 1000000,
          sample_discussion ''y'' ''recording'' 3000000,
          sample_discussion ''x'' ''finished'' 1000000,
          sample_discussion ''z'' ''finished'' 2000000]" by (simp add: unordered_listing_def)
  from claim [THEN conjunct1, rule_format, OF run]
  have a: "sorted_wrt (\<lambda>a b. recordedAt_key a \<ge> recordedAt_key b)
     [discussion_info_of (sample_discussion ''y'' ''recording'' 3000000),
      discussion_info_of (sample_discussion ''z'' ''finished'' 2000000),
      discussion_info_of (sample_discussion ''x'' ''finished'' 1000000)] \<and>
   distinct (map i_id
     [discussion_info_of (sample_discussion ''y'' ''recording'' 3000000),
      discussion_info_of (sample_discussion ''z'' ''finished'' 2000000),
      discussion_info_of (sample_discussion ''x'' ''finished'' 1000000)])" by blast
  from claim [THEN conjunct2, rule_format, OF conjI [OF z l]]
  have b: "\<exists>r w'. get_all_discussion_ids japan_host unordered_listing (ticking_clock 1) ''crs'' 30
              hy_start = Some (Inr r, w')" .
  from run a z b show ?thesis by blast
qed

section \<open>Transcript retrieval\<close>

lemma item_texts_all:
  "(\<forall>item \<in> set metadatas. map_of item ''text'' \<noteq> None) \<Longrightarrow>
   item_texts metadatas = Inr (map (\<lambda>item. the (map_of item ''text'')) metadatas)"
  by (induction metadatas) auto

lemma item_texts_error: "item_texts metadatas = Inl e \<Longrightarrow> e = KeyError"
  by (induction metadatas arbitrary: e) (auto split: option.splits sum.splits)

lemma item_texts_ok:
  "item_texts metadatas = Inr ts \<Longrightarrow> \<forall>item \<in> set metadatas. map_of item ''text'' \<noteq> None"
  by (induction metadatas arbitrary: ts) (auto split: option.splits sum.splits)

lemma item_texts_missing:
  assumes "\<exists>item \<in> set metadatas. map_of item ''text'' = None"
  shows "item_texts metadatas = Inl KeyError"
proof (cases "item_texts metadatas")
  case (Inl e)
  with item_texts_error [OF Inl] show ?thesis by simp
next
  case (Inr ts)
  with item_texts_ok [OF Inr] assms show ?thesis by blast
qed

text \<open>
  C4. For every client and discussion identifier \<^verbatim>\<open>get_single_discussion_text\<close> returns
  and raises nothing. It returns \<^verbatim>\<open>None\<close> when the discussion lookup fails, when the
  segment lookup fails, and when a segment has no text; when every step succeeds it
  returns the identifier paired with the texts of the segments in their order.
\<close>

theorem transcript_unavailable_is_none:
  "(\<exists>r. get_single_discussion_text client discussion_id = Inr r) \<and>
   (\<forall>e. get_discussion client discussion_id = Inl e \<longrightarrow>
        get_single_discussion_text client discussion_id = Inr None) \<and>
   (\<forall>d e. get_discussion client discussion_id = Inr d \<and> get_asr client d = Inl e \<longrightarrow>
        get_single_discussion_text client discussion_id = Inr None) \<and>
   (\<forall>d metadatas. get_discussion client discussion_id = Inr d \<and>
        get_asr client d = Inr metadatas \<and>
        (\<exists>item \<in> set metadatas. map_of item ''text'' = None) \<longrightarrow>
        get_single_discussion_text client discussion_id = Inr None) \<and>
   (\<forall>d metadatas. get_discussion client discussion_id = Inr d \<and>
        get_asr client d = Inr metadatas \<and>
        (\<forall>item \<in> set metadatas. map_of item ''text'' \<noteq> None) \<longrightarrow>
        get_single_discussion_text client discussion_id
          = Inr (Some (discussion_id, map (\<lambda>item. the (map_of item ''text'')) metadatas)))"
proof (intro conjI allI impI)
  show "\<exists>r. get_single_discussion_text client discussion_id = Inr r"
    by (simp add: get_single_discussion_text_def split: sum.split)
next
  fix e assume "get_discussion client discussion_id = Inl e"
  then show "get_single_discussion_text client discussion_id = Inr None"
    by (simp add: get_single_discussion_text_def discussion_text_body_def)
next
  fix d e assume "get_discussion client discussion_id = Inr d \<and> get_asr client d = Inl e"
  then show "get_single_discussion_text client discussion_id = Inr None"
    by (simp add: get_single_discussion_text_def discussion_text_body_def)
next
  fix d metadatas
  assume a: "get_discussion client discussion_id = Inr d \<and> get_asr client d = Inr metadatas \<and>
        (\<exists>item \<in> set metadatas. map_of item ''text'' = None)"
  then have "item_texts metadatas = Inl KeyError" by (simp add: item_texts_missing)
  with a show "get_single_discussion_text client discussion_id = Inr None"
    by (simp add: get_single_discussion_text_def discussion_text_body_def)
next
  fix d metadatas
  assume a: "get_discussion client discussion_id = Inr d \<and> get_asr client d = Inr metadatas \<and>
        (\<forall>item \<in> set metadatas. map_of item ''text'' \<noteq> None)"
  then have "item_texts metadatas = Inr (map (\<lambda>item. the (map_of item ''text'')) metadatas)"
    by (simp add: item_texts_all)
  with a show "get_single_discussion_text client discussion_id
          = Inr (Some (discussion_id, map (\<lambda>item. the (map_of item ''text'')) metadatas))"
    by (simp add: get_single_discussion_text_def discussion_text_body_def)
qed

theorem transcript_unavailable_is_none_witness:
  "get_discussion sample_client ''nope'' = Inl IndexError \<and>
   get_single_discussion_text sample_client ''nope'' = Inr None \<and>
   get_discussion sample_client ''d3'' = Inr (sample_discussion ''d3'' ''finished'' 0) \<and>
   get_asr sample_client (sample_discussion ''d3'' ''finished'' 0) = Inl OtherException \<and>
   get_single_discussion_text sample_client ''d3'' = Inr None \<and>
   get_discussion sample_client ''d2'' = Inr (sample_discussion ''d2'' ''finished'' 0) \<and>
   get_asr sample_client (sample_discussion ''d2'' ''finished'' 0)
     = Inr [[(''text'', ''hello'')], [(''speaker'', ''s1'')]] \<and>
   map_of [(''speaker'', ''s1'')] ''text'' = None \<and>
   get_single_discussion_text sample_client ''d2'' = Inr None \<and>
   get_discussion sample_client ''d1'' = Inr (sample_discussion ''d1'' ''finished'' 0) \<and>
   get_asr sample_client (sample_discussion ''d1'' ''finished'' 0)
     = Inr [[(''text'', ''hello''), (''speaker'', ''s1'')], [(''text'', ''world'')]] \<and>
   get_single_discussion_text sample_client ''d1'' = Inr (Some (''d1'', [''hello'', ''world'']))"
proof -
  note claim = transcript_unavailable_is_none [of sample_client]
  have g0: "get_discussion sample_client ''nope'' = Inl IndexError"
    by (simp add: sample_client_def)
  have g3: "get_discussion sample_client ''d3'' = Inr (sample_discussion ''d3'' ''finished'' 0)"
    by (simp add: sample_client_def)
  have a3: "get_asr sample_client (sample_discussion ''d3'' ''finished'' 0) = Inl OtherException"
    by (simp add: sample_client_def sample_discussion_def)
  have g2: "get_discussion sample_client ''d2'' = Inr (sample_discussion ''d2'' ''finished'' 0)"
    by (simp add: sample_client_def)
  have a2: "get_asr sample_client (sample_discussion ''d2'' ''finished'' 0)
     = Inr [[(''text'', ''hello'')], [(''speaker'', ''s1'')]]"
    by (simp add: sample_client_def sample_discussion_def)
  have m2: "\<exists>item \<in> set [[(''text'', ''hello'')], [(''speaker'', ''s1'')]].
              map_of item ''text'' = None" by simp
  have g1: "get_discussion sample_client ''d1'' = Inr (sample_discussion ''d1'' ''finished'' 0)"
    by (simp add: sample_client_def)
  have a1: "get_asr sample_client (sample_discussion ''d1'' ''finished'' 0)
     = Inr [[(''text'', ''hello''), (''speaker'', ''s1'')], [(''text'', ''world'')]]"
    by (simp add: sample_client_def sample_discussion_def)
  have m1: "\<forall>item \<in> set [[(''text'', ''hello''), (''speaker'', ''s1'')], [(''text'', ''world'')]].
              map_of item ''text'' \<noteq> None" by simp
  from claim [of "''nope''", THEN conjunct2, THEN conjunct1, rule_format, OF g0]
  have r0: "get_single_discussion_text sample_client ''nope'' = Inr None" .
  from claim [of "''d3''", THEN conjunct2, THEN conjunct2, THEN conjunct1, rule_format,
      OF conjI [OF g3 a3]]
  have r3: "get_single_discussion_text sample_client ''d3'' = Inr None" .
  from claim [of "''d2''", THEN conjunct2, THEN conjunct2, THEN conjunct2, THEN conjunct1,
      rule_format, OF conjI [OF g2 conjI [OF a2 m2]]]
  have r2: "get_single_discussion_text sample_client ''d2'' = Inr None" .
  from claim [of "''d1''", THEN conjunct2, THEN conjunct2, THEN conjunct2, THEN conjunct2,
      rule_format, OF conjI [OF g1 conjI [OF a1 m1]]]
  have r1: "get_single_discussion_text sample_client ''d1'' = Inr (Some (''d1'', [''hello'', ''world'']))"
    by simp
  from g0 r0 g3 a3 r3 g2 a2 r2 g1 a1 r1 show ?thesis by simp
qed

section \<open>The board backup\<close>

subsection \<open>The pagination loop, round by round\<close>

lemma send_simps:
  "requests_sent (send rq w) = requests_sent w @ [rq]" "files (send rq w) = files w"
  by (simp_all add: send_def)

lemma items_loop_run:
  assumes "\<forall>k < length ps. net (length (requests_sent w) + k) = HttpOk (ps ! k) \<and>
                            truthy (p_cursor (ps ! k))"
  shows "items_loop net tok b items cursor w =
         items_loop net tok b (items @ concat (map page_items ps))
           (last (cursor # map p_cursor ps))
           (w\<lparr>requests_sent := requests_sent w @
                map (items_request tok b) (butlast (cursor # map p_cursor ps))\<rparr>)"
  using assms
proof (induction ps arbitrary: items cursor w)
  case Nil
  then show ?case by simp
next
  case (Cons p ps)
  from Cons.prems have p: "net (length (requests_sent w)) = HttpOk p" "truthy (p_cursor p)"
    by auto
  let ?w1 = "send (items_request tok b cursor) w"
  have rest: "\<forall>k < length ps. net (length (requests_sent ?w1) + k) = HttpOk (ps ! k) \<and>
                            truthy (p_cursor (ps ! k))"
  proof (intro allI impI)
    fix k assume "k < length ps"
    then have "Suc k < length (p # ps)" by simp
    with Cons.prems have "net (length (requests_sent w) + Suc k) = HttpOk ((p # ps) ! Suc k) \<and>
                            truthy (p_cursor ((p # ps) ! Suc k))" by blast
    then show "net (length (requests_sent ?w1) + k) = HttpOk (ps ! k) \<and>
                            truthy (p_cursor (ps ! k))" by (simp add: send_simps)
  qed
  have "items_loop net tok b items cursor w
          = items_loop net tok b (items @ page_items p) (p_cursor p) ?w1"
    using p by (subst items_loop.simps) simp
  also have "\<dots> = items_loop net tok b ((items @ page_items p) @ concat (map page_items ps))
           (last (p_cursor p # map p_cursor ps))
           (?w1\<lparr>requests_sent := requests_sent ?w1 @
                map (items_request tok b) (butlast (p_cursor p # map p_cursor ps))\<rparr>)"
    by (rule Cons.IH [OF rest])
  finally show ?case by (simp add: send_def)
qed

lemma items_loop_never_stops:
  assumes run: "items_loop net tok b items cursor (w :: 'f miro_world) = Some y"
  shows "\<not> (\<forall>k. \<exists>p. net (length (requests_sent w) + k) = HttpOk p \<and> truthy (p_cursor p))"
proof (rule items_loop.raw_induct [where P = "\<lambda>(net::items_oracle) (tok::string) (b::string)
      (items::json list) (cursor::string option) (w::'f miro_world)
      (y::(py_exception + json list) \<times> 'f miro_world).
      \<not> (\<forall>k. \<exists>p. net (length (requests_sent w) + k) = HttpOk p \<and> truthy (p_cursor p))",
      OF _ run], goal_cases)
  case (1 loop net tok b items cursor w y)
  show ?case
  proof
    assume all: "\<forall>k. \<exists>p. net (length (requests_sent w) + k) = HttpOk p \<and> truthy (p_cursor p)"
    then obtain p where p: "net (length (requests_sent w)) = HttpOk p" "truthy (p_cursor p)"
      by (metis add.right_neutral)
    let ?w1 = "send (items_request tok b cursor) w"
    from 1(2) p have "loop net tok b (items @ page_items p) (p_cursor p) ?w1 = Some y" by simp
    from 1(1) [OF this]
    have "\<not> (\<forall>k. \<exists>p. net (length (requests_sent ?w1) + k) = HttpOk p \<and> truthy (p_cursor p))" .
    moreover have "\<forall>k. \<exists>p. net (length (requests_sent ?w1) + k) = HttpOk p \<and> truthy (p_cursor p)"
    proof
      fix k
      from all have "\<exists>p. net (length (requests_sent w) + Suc k) = HttpOk p \<and> truthy (p_cursor p)" ..
      then show "\<exists>p. net (length (requests_sent ?w1) + k) = HttpOk p \<and> truthy (p_cursor p)"
        by (simp add: send_simps)
    qed
    ultimately show False by blast
  qed
qed

lemma items_loop_files:
  assumes run: "items_loop net tok b items cursor (w :: 'f miro_world) = Some y"
  shows "files (snd y) = files w"
proof (rule items_loop.raw_induct [where P = "\<lambda>(net::items_oracle) (tok::string) (b::string)
      (items::json list) (cursor::string option) (w::'f miro_world)
      (y::(py_exception + json list) \<times> 'f miro_world). files (snd y) = files w",
      OF _ run], goal_cases)
  case (1 loop net tok b items cursor w y)
  show ?case
  proof (cases "net (length (requests_sent w))")
    case HttpError
    with 1(2) show ?thesis by (auto simp: send_simps)
  next
    case (HttpOk p)
    show ?thesis
    proof (cases "truthy (p_cursor p)")
      case False
      with 1(2) HttpOk show ?thesis by (auto simp: send_simps)
    next
      case True
      with 1(2) HttpOk
      have "loop net tok b (items @ page_items p) (p_cursor p)
              (send (items_request tok b cursor) w) = Some y" by simp
      from 1(1) [OF this] show ?thesis by (simp add: send_simps)
    qed
  qed
qed

lemma items_loop_stop_step:
  "net (length (requests_sent w)) = HttpOk lastp \<Longrightarrow> \<not> truthy (p_cursor lastp) \<Longrightarrow>
   items_loop net tok b items cursor w
     = Some (Inr (items @ page_items lastp), send (items_request tok b cursor) w)"
  by (subst items_loop.simps) simp

lemma items_loop_fail_step:
  "net (length (requests_sent w)) = HttpError \<Longrightarrow>
   items_loop net tok b items cursor w
     = Some (Inl RequestException, send (items_request tok b cursor) w)"
  by (subst items_loop.simps) simp

lemma sent_so_far:
  "length (requests_sent (w\<lparr>requests_sent := requests_sent w @
       map f (butlast (cursor # map p_cursor ps))\<rparr>)) = length (requests_sent w) + length ps"
  by simp

lemma send_last:
  "send (f (last (cursor # cs))) (w\<lparr>requests_sent := requests_sent w @ map f (butlast (cursor # cs))\<rparr>)
     = w\<lparr>requests_sent := requests_sent w @ map f (cursor # cs)\<rparr>"
proof -
  have "butlast (cursor # cs) @ [last (cursor # cs)] = cursor # cs"
    by (rule append_butlast_last_id) simp
  then have "map f (butlast (cursor # cs)) @ [f (last (cursor # cs))] = map f (cursor # cs)"
    by (metis list.simps(8,9) map_append)
  then show ?thesis by (simp add: send_def)
qed

lemma items_loop_last_page:
  assumes pages: "\<forall>k < length ps. net (length (requests_sent w) + k) = HttpOk (ps ! k) \<and>
                            truthy (p_cursor (ps ! k))"
    and final: "net (length (requests_sent w) + length ps) = HttpOk lastp"
    and stop: "\<not> truthy (p_cursor lastp)"
  shows "items_loop net tok b items cursor w =
         Some (Inr (items @ concat (map page_items (ps @ [lastp]))),
               w\<lparr>requests_sent := requests_sent w @
                    map (items_request tok b) (cursor # map p_cursor ps)\<rparr>)"
proof -
  let ?w = "w\<lparr>requests_sent := requests_sent w @
                map (items_request tok b) (butlast (cursor # map p_cursor ps))\<rparr>"
  from final have "net (length (requests_sent ?w)) = HttpOk lastp"
    by (simp only: sent_so_far)
  from items_loop_stop_step [of net ?w lastp tok b "items @ concat (map page_items ps)"
      "last (cursor # map p_cursor ps)", OF this stop]
  have "items_loop net tok b (items @ concat (map page_items ps))
           (last (cursor # map p_cursor ps)) ?w
        = Some (Inr ((items @ concat (map page_items ps)) @ page_items lastp),
                send (items_request tok b (last (cursor # map p_cursor ps))) ?w)" .
  then have "items_loop net tok b (items @ concat (map page_items ps))
           (last (cursor # map p_cursor ps)) ?w
        = Some (Inr (items @ concat (map page_items (ps @ [lastp]))),
                w\<lparr>requests_sent := requests_sent w @
                    map (items_request tok b) (cursor # map p_cursor ps)\<rparr>)"
    by (simp only: send_last map_append concat_append list.map concat.simps append_Nil2
        append_assoc)
  with items_loop_run [OF pages, of tok b items cursor] show ?thesis by (simp only:)
qed

lemma items_loop_failure:
  assumes pages: "\<forall>k < length ps. net (length (requests_sent w) + k) = HttpOk (ps ! k) \<and>
                            truthy (p_cursor (ps ! k))"
    and final: "net (length (requests_sent w) + length ps) = HttpError"
  shows "items_loop net tok b items cursor w =
         Some (Inl RequestException,
               w\<lparr>requests_sent := requests_sent w @
                    map (items_request tok b) (cursor # map p_cursor ps)\<rparr>)"
proof -
  let ?w = "w\<lparr>requests_sent := requests_sent w @
                map (items_request tok b) (butlast (cursor # map p_cursor ps))\<rparr>"
  from final have "net (length (requests_sent ?w)) = HttpError"
    by (simp only: sent_so_far)
  from items_loop_fail_step [of net ?w tok b "items @ concat (map page_items ps)"
      "last (cursor # map p_cursor ps)", OF this]
  have "items_loop net tok b (items @ concat (map page_items ps))
           (last (cursor # map p_cursor ps)) ?w
        = Some (Inl RequestException,
                send (items_request tok b (last (cursor # map p_cursor ps))) ?w)" .
  then have "items_loop net tok b (items @ concat (map page_items ps))
           (last (cursor # map p_cursor ps)) ?w
        = Some (Inl RequestException,
                w\<lparr>requests_sent := requests_sent w @
                    map (items_request tok b) (cursor # map p_cursor ps)\<rparr>)"
    by (simp only: send_last)
  with items_loop_run [OF pages, of tok b items cursor] show ?thesis by (simp only:)
qed

text \<open>
  C2. Take any run of \<^verbatim>\<open>get_all_items\<close> whose responses are pages. If the first pages
  \<open>ps\<close> each carry a continuation cursor and the next page \<open>lastp\<close> carries none (the key
  is absent, or its value is empty, which Python's \<^verbatim>\<open>if not cursor\<close> treats alike), the
  function returns after exactly those requests, and its result is the items of
  \<open>ps\<close> and \<open>lastp\<close> concatenated in request order, nothing added and nothing left out;
  each request carries the cursor of the page before it. If every response carries a
  continuation cursor, the function never returns.
\<close>

theorem pagination_concatenates_pages:
  "(\<forall>ps lastp.
      (\<forall>k < length ps. net (length (requests_sent w) + k) = HttpOk (ps ! k) \<and>
                        truthy (p_cursor (ps ! k))) \<and>
      net (length (requests_sent w) + length ps) = HttpOk lastp \<and> \<not> truthy (p_cursor lastp) \<longrightarrow>
      get_all_items net access_token board_id w =
        Some (Inr (concat (map page_items (ps @ [lastp]))),
              w\<lparr>requests_sent := requests_sent w @
                   map (items_request access_token board_id) (None # map p_cursor ps)\<rparr>)) \<and>
   ((\<forall>k. \<exists>p. net (length (requests_sent w) + k) = HttpOk p \<and> truthy (p_cursor p)) \<longrightarrow>
      get_all_items net access_token board_id w = None)"
proof (intro conjI allI impI)
  fix ps lastp
  assume a: "(\<forall>k < length ps. net (length (requests_sent w) + k) = HttpOk (ps ! k) \<and>
                        truthy (p_cursor (ps ! k))) \<and>
      net (length (requests_sent w) + length ps) = HttpOk lastp \<and> \<not> truthy (p_cursor lastp)"
  then have pages: "\<forall>k < length ps. net (length (requests_sent w) + k) = HttpOk (ps ! k) \<and>
                        truthy (p_cursor (ps ! k))"
    and final: "net (length (requests_sent w) + length ps) = HttpOk lastp"
    and stop: "\<not> truthy (p_cursor lastp)" by blast+
  from items_loop_last_page [OF pages final stop, of access_token board_id "[]" None]
  show "get_all_items net access_token board_id w =
        Some (Inr (concat (map page_items (ps @ [lastp]))),
              w\<lparr>requests_sent := requests_sent w @
                   map (items_request access_token board_id) (None # map p_cursor ps)\<rparr>)"
    by (simp add: get_all_items_def)
next
  assume all: "\<forall>k. \<exists>p. net (length (requests_sent w) + k) = HttpOk p \<and> truthy (p_cursor p)"
  show "get_all_items net access_token board_id w = None"
  proof (cases "get_all_items net access_token board_id w")
    case None
    then show ?thesis .
  next
    case (Some y)
    from items_loop_never_stops [OF Some [unfolded get_all_items_def]] all show ?thesis by blast
  qed
qed

theorem pagination_concatenates_pages_witness:
  "sample_items_net 0 (length (requests_sent miro_start) + 0) = HttpOk ([sample_page1] ! 0) \<and>
   truthy (p_cursor ([sample_page1] ! 0)) \<and>
   sample_items_net 0 (length (requests_sent miro_start) + length [sample_page1])
     = HttpOk sample_page2 \<and>
   \<not> truthy (p_cursor sample_page2) \<and>
   get_all_items (sample_items_net 0) ''tok'' ''b1'' miro_start =
     Some (Inr [JStr ''i1'', JStr ''i2'', JStr ''i3''],
           \<lparr>requests_sent = [items_request ''tok'' ''b1'' None,
                              items_request ''tok'' ''b1'' (Some ''c1'')],
             files = Map.empty\<rparr>) \<and>
   (\<forall>k. \<exists>p. endless_items_net (length (requests_sent miro_start) + k) = HttpOk p \<and>
            truthy (p_cursor p)) \<and>
   get_all_items endless_items_net ''tok'' ''b1'' miro_start = None"
proof -
  have pages: "\<forall>k < length [sample_page1].
      sample_items_net 0 (length (requests_sent miro_start) + k) = HttpOk ([sample_page1] ! k) \<and>
      truthy (p_cursor ([sample_page1] ! k))"
    by (simp add: sample_items_net_def miro_start_def sample_page1_def)
  have final: "sample_items_net 0 (length (requests_sent miro_start) + length [sample_page1])
     = HttpOk sample_page2"
    by (simp add: sample_items_net_def miro_start_def)
  have stop: "\<not> truthy (p_cursor sample_page2)" by (simp add: sample_page2_def)
  have endless: "\<forall>k. \<exists>p. endless_items_net (length (requests_sent miro_start) + k) = HttpOk p \<and>
            truthy (p_cursor p)"
    by (simp add: endless_items_net_def sample_page1_def)
  from pagination_concatenates_pages [of "sample_items_net 0" miro_start "''tok''" "''b1''",
      THEN conjunct1, rule_format, OF conjI [OF pages conjI [OF final stop]]]
  have r: "get_all_items (sample_items_net 0) ''tok'' ''b1'' miro_start =
     Some (Inr [JStr ''i1'', JStr ''i2'', JStr ''i3''],
           \<lparr>requests_sent = [items_request ''tok'' ''b1'' None,
                              items_request ''tok'' ''b1'' (Some ''c1'')],
             files = Map.empty\<rparr>)"
    by (simp add: miro_start_def page_items_def sample_page1_def sample_page2_def)
  from pagination_concatenates_pages [of endless_items_net miro_start "''tok''" "''b1''",
      THEN conjunct2, THEN mp, OF endless]
  have n: "get_all_items endless_items_net ''tok'' ''b1'' miro_start = None" .
  from pages have first: "sample_items_net 0 (length (requests_sent miro_start) + 0)
        = HttpOk ([sample_page1] ! 0) \<and> truthy (p_cursor ([sample_page1] ! 0))" by simp
  from first final stop r endless n show ?thesis by blast
qed

subsection \<open>Failures and the output file\<close>

lemma get_board_files: "files (snd (get_board bnet tok b w)) = files w"
  by (simp add: get_board_def send_simps split: http_result.split)

lemma get_all_items_files:
  "get_all_items inet tok b w = Some (r, w') \<Longrightarrow> files w' = files w"
  using items_loop_files [of inet tok b "[]" None w "(r, w')"] by (simp add: get_all_items_def)

text \<open>
  C7. If the board request fails, or the board request succeeds and an items request
  fails after any number of pages, \<^verbatim>\<open>backup_board\<close> raises the request exception and the
  files are as they were: the output file is opened only after both fetches.
\<close>

theorem http_failure_aborts_backup:
  "(bnet (length (requests_sent w)) = HttpError \<longrightarrow>
      (\<exists>w'. backup_board bnet inet dumps now can_open access_token board_id output_path w
               = Some (Inl RequestException, w') \<and> files w' = files w)) \<and>
   (\<forall>board_info ps.
      bnet (length (requests_sent w)) = HttpOk board_info \<and>
      (\<forall>k < length ps. inet (Suc (length (requests_sent w)) + k) = HttpOk (ps ! k) \<and>
                        truthy (p_cursor (ps ! k))) \<and>
      inet (Suc (length (requests_sent w)) + length ps) = HttpError \<longrightarrow>
      (\<exists>w'. backup_board bnet inet dumps now can_open access_token board_id output_path w
               = Some (Inl RequestException, w') \<and> files w' = files w))"
proof (intro conjI allI impI)
  assume "bnet (length (requests_sent w)) = HttpError"
  then show "\<exists>w'. backup_board bnet inet dumps now can_open access_token board_id output_path w
               = Some (Inl RequestException, w') \<and> files w' = files w"
    by (simp add: backup_board_def get_board_def send_simps)
next
  fix board_info ps
  assume a: "bnet (length (requests_sent w)) = HttpOk board_info \<and>
      (\<forall>k < length ps. inet (Suc (length (requests_sent w)) + k) = HttpOk (ps ! k) \<and>
                        truthy (p_cursor (ps ! k))) \<and>
      inet (Suc (length (requests_sent w)) + length ps) = HttpError"
  let ?w1 = "send (board_request access_token board_id) w"
  from a have b: "get_board bnet access_token board_id w = (Inr board_info, ?w1)"
    by (simp add: get_board_def)
  from a have pages: "\<forall>k < length ps. inet (length (requests_sent ?w1) + k) = HttpOk (ps ! k) \<and>
                        truthy (p_cursor (ps ! k))"
    and final: "inet (length (requests_sent ?w1) + length ps) = HttpError"
    by (simp_all add: send_simps)
  from items_loop_failure [OF pages final, of access_token board_id "[]" None] b
  show "\<exists>w'. backup_board bnet inet dumps now can_open access_token board_id output_path w
               = Some (Inl RequestException, w') \<and> files w' = files w"
    by (simp add: backup_board_def get_all_items_def send_simps)
qed

theorem http_failure_aborts_backup_witness:
  "failing_board_net (length (requests_sent miro_start)) = HttpError \<and>
   (\<exists>w'. backup_board failing_board_net (sample_items_net 1) (\<lambda>d. Inr d)
            ''2024-05-01T10:00:00'' (\<lambda>p. True) ''tok'' ''b1'' ''out.json'' miro_start
          = Some (Inl RequestException, w') \<and> files w' = files miro_start) \<and>
   sample_board_net (length (requests_sent miro_start)) = HttpOk sample_board \<and>
   failing_items_net 1 (Suc (length (requests_sent miro_start)) + 0) = HttpOk ([sample_page1] ! 0) \<and>
   truthy (p_cursor ([sample_page1] ! 0)) \<and>
   failing_items_net 1 (Suc (length (requests_sent miro_start)) + length [sample_page1])
     = HttpError \<and>
   (\<exists>w'. backup_board sample_board_net (failing_items_net 1) (\<lambda>d. Inr d)
            ''2024-05-01T10:00:00'' (\<lambda>p. True) ''tok'' ''b1'' ''out.json'' miro_start
          = Some (Inl RequestException, w') \<and> files w' = files miro_start)"
proof -
  note claim = http_failure_aborts_backup [of _ miro_start _ "\<lambda>d. Inr d"
      "''2024-05-01T10:00:00''" "\<lambda>p. True" "''tok''" "''b1''" "''out.json''"]
  have b0: "failing_board_net (length (requests_sent miro_start)) = HttpError"
    by (simp add: failing_board_net_def)
  have b1: "sample_board_net (length (requests_sent miro_start)) = HttpOk sample_board"
    by (simp add: sample_board_net_def)
  have first: "failing_items_net 1 (Suc (length (requests_sent miro_start)) + 0)
                 = HttpOk ([sample_page1] ! 0) \<and> truthy (p_cursor ([sample_page1] ! 0))"
    by (simp add: failing_items_net_def miro_start_def sample_page1_def)
  then have pages: "\<forall>k < length [sample_page1].
      failing_items_net 1 (Suc (length (requests_sent miro_start)) + k)
        = HttpOk ([sample_page1] ! k) \<and> truthy (p_cursor ([sample_page1] ! k))" by simp
  have final: "failing_items_net 1 (Suc (length (requests_sent miro_start)) + length [sample_page1])
     = HttpError"
    by (simp add: failing_items_net_def miro_start_def)
  from claim [of sample_board_net "failing_items_net 1", THEN conjunct2,
      rule_format, OF conjI [OF b1 conjI [OF pages final]]]
  have r1: "\<exists>w'. backup_board sample_board_net (failing_items_net 1) (\<lambda>d. Inr d)
            ''2024-05-01T10:00:00'' (\<lambda>p. True) ''tok'' ''b1'' ''out.json'' miro_start
          = Some (Inl RequestException, w') \<and> files w' = files miro_start" .
  from claim [of failing_board_net "sample_items_net 1", THEN conjunct1, THEN mp, OF b0]
  have r0: "\<exists>w'. backup_board failing_board_net (sample_items_net 1) (\<lambda>d. Inr d)
            ''2024-05-01T10:00:00'' (\<lambda>p. True) ''tok'' ''b1'' ''out.json'' miro_start
          = Some (Inl RequestException, w') \<and> files w' = files miro_start" .
  from b0 r0 b1 first final r1 show ?thesis by blast
qed

text \<open>
  C9. If the access token or the board id is missing from the environment (or empty),
  \<^verbatim>\<open>load_environment\<close> raises \<^verbatim>\<open>ValueError\<close> and \<^verbatim>\<open>main\<close> ends in the world it
  started in: no request has been sent and no file written. With both present, the three
  values are returned, the output path being \<^verbatim>\<open>miro_board_backup.json\<close> when
  \<^verbatim>\<open>OUTPUT_PATH\<close> is absent.
\<close>

theorem missing_environment_aborts:
  "(\<not> truthy (env ''MIRO_ACCESS_TOKEN'') \<or> \<not> truthy (env ''MIRO_BOARD_ID'') \<longrightarrow>
      load_environment env = Inl ValueError \<and>
      main env bnet inet dumps now can_open w = Some w) \<and>
   (\<forall>access_token board_id.
      env ''MIRO_ACCESS_TOKEN'' = Some access_token \<and> access_token \<noteq> [] \<and>
      env ''MIRO_BOARD_ID'' = Some board_id \<and> board_id \<noteq> [] \<longrightarrow>
      load_environment env
        = Inr (access_token, board_id,
               case env ''OUTPUT_PATH'' of None \<Rightarrow> ''miro_board_backup.json'' | Some p \<Rightarrow> p))"
proof (intro conjI allI impI)
  assume a: "\<not> truthy (env ''MIRO_ACCESS_TOKEN'') \<or> \<not> truthy (env ''MIRO_BOARD_ID'')"
  then have l: "load_environment env = Inl ValueError"
    by (cases "env ''MIRO_ACCESS_TOKEN''"; cases "env ''MIRO_BOARD_ID''")
       (auto simp: load_environment_def)
  then show "load_environment env = Inl ValueError" .
  from l show "main env bnet inet dumps now can_open w = Some w" by (simp add: main_def)
next
  fix access_token board_id
  assume "env ''MIRO_ACCESS_TOKEN'' = Some access_token \<and> access_token \<noteq> [] \<and>
      env ''MIRO_BOARD_ID'' = Some board_id \<and> board_id \<noteq> []"
  then show "load_environment env
        = Inr (access_token, board_id,
               case env ''OUTPUT_PATH'' of None \<Rightarrow> ''miro_board_backup.json'' | Some p \<Rightarrow> p)"
    by (simp add: load_environment_def)
qed

theorem missing_environment_aborts_witness:
  "\<not> truthy (tokenless_env ''MIRO_ACCESS_TOKEN'') \<and>
   load_environment tokenless_env = Inl ValueError \<and>
   main tokenless_env sample_board_net (sample_items_net 1) (\<lambda>d. Inr d) ''2024-05-01T10:00:00''
     (\<lambda>p. True) miro_start = Some miro_start \<and>
   sample_env ''MIRO_ACCESS_TOKEN'' = Some ''tok'' \<and> ''tok'' \<noteq> [] \<and>
   sample_env ''MIRO_BOARD_ID'' = Some ''b1'' \<and> ''b1'' \<noteq> [] \<and>
   load_environment sample_env = Inr (''tok'', ''b1'', ''miro_board_backup.json'')"
proof -
  have t: "\<not> truthy (tokenless_env ''MIRO_ACCESS_TOKEN'')" by (simp add: tokenless_env_def)
  from missing_environment_aborts [of tokenless_env sample_board_net "sample_items_net 1"
      "\<lambda>d. Inr d" "''2024-05-01T10:00:00''" "\<lambda>p. True" miro_start, THEN conjunct1, THEN mp,
      OF disjI1 [OF t]]
  have a: "load_environment tokenless_env = Inl ValueError \<and>
      main tokenless_env sample_board_net (sample_items_net 1) (\<lambda>d. Inr d) ''2024-05-01T10:00:00''
        (\<lambda>p. True) miro_start = Some miro_start" .
  have e: "sample_env ''MIRO_ACCESS_TOKEN'' = Some ''tok'' \<and> ''tok'' \<noteq> [] \<and>
   sample_env ''MIRO_BOARD_ID'' = Some ''b1'' \<and> ''b1'' \<noteq> []" by (simp add: sample_env_def)
  from missing_environment_aborts [of sample_env sample_board_net "sample_items_net 1"
      "\<lambda>d. Inr d" "''2024-05-01T10:00:00''" "\<lambda>p. True" miro_start, THEN conjunct2, rule_format, OF e]
  have b: "load_environment sample_env = Inr (''tok'', ''b1'', ''miro_board_backup.json'')"
    by (simp add: sample_env_def)
  from t a e b show ?thesis by blast
qed

end
